theory Spec2Isabelle
  imports Complex_Main
begin

section \<open>Python values used by the pipeline\<close>

text \<open>
  A Python \<open>str\<close> is a sequence of Unicode code points, so it is a list of naturals
  here (an Isabelle \<open>char\<close> is one byte only). \<open>ascii\<close> embeds an ASCII literal.
\<close>

type_synonym pystr = "nat list"

definition ascii :: "string \<Rightarrow> pystr" where
  "ascii s = map of_char s"

text \<open>
  Exceptions. Messages are left out; \<open>RuntimeError (Some e)\<close> is
  \<^verbatim>\<open>raise RuntimeError(msg) from e\<close>, \<open>RuntimeError None\<close> a RuntimeError raised directly.
  \<open>ExternalError\<close> stands for any other exception coming out of a library or of an
  external engine.
\<close>

datatype pyerr =
    ValueError
  | KeyError
  | ZeroDivisionError
  | OverflowError
  | FileNotFoundError
  | ModuleNotFoundError
  | CalledProcessError
  | OSError
  | ExternalError
  | RuntimeError "pyerr option"

text \<open>
  A segment is a dict. The code reads and writes the keys \<open>start\<close>, \<open>end\<close>, \<open>text\<close>,
  \<open>original\<close> and \<open>translated\<close> only; a field is \<open>None\<close> when the key is absent.
  \<open>start\<close> and \<open>end\<close> hold floats (finite ones, so rationals), the other three keys
  hold strs, as every producer in the repository writes them.
\<close>

record segment =
  seg_start :: "rat option"
  seg_end :: "rat option"
  seg_text :: "pystr option"
  seg_original :: "pystr option"
  seg_translated :: "pystr option"

subsection \<open>Floating point\<close>

text \<open>
  Float operations are the exact operation followed by rounding to a double. The rounding
  is a parameter \<open>rnd\<close> of every function that computes with floats; what the proofs use
  of it is collected in \<open>float_rounding\<close>: it is monotone, it leaves the integers up to
  \<open>2^53\<close> as they are, and in the range of normal doubles met here its relative error is
  at most \<open>2^-53\<close>. IEEE round-to-nearest has these properties, and so has exact
  arithmetic (\<open>rnd = (\<lambda>x. x)\<close>).
\<close>

definition float_rounding :: "(rat \<Rightarrow> rat) \<Rightarrow> bool" where
  "float_rounding rnd \<longleftrightarrow>
     (\<forall>x y. x \<le> y \<longrightarrow> rnd x \<le> rnd y) \<and>
     (\<forall>n::int. \<bar>n\<bar> \<le> 2 ^ 53 \<longrightarrow> rnd (of_int n) = of_int n) \<and>
     (\<forall>x. 1 / 2 ^ 64 \<le> x \<and> x \<le> 2 ^ 64 \<longrightarrow> \<bar>rnd x - x\<bar> \<le> x / 2 ^ 53)"

text \<open>\<^verbatim>\<open>int(x)\<close> on a float truncates towards zero.\<close>

definition py_int :: "rat \<Rightarrow> int" where
  "py_int x = (if 0 \<le> x then \<lfloor>x\<rfloor> else \<lceil>x\<rceil>)"

text \<open>Python's \<^verbatim>\<open>round\<close>: to the nearest integer, a tie to the even one.\<close>

definition round_half_even :: "rat \<Rightarrow> int" where
  "round_half_even x =
     (let f = \<lfloor>x\<rfloor>; d = x - of_int f
      in if d < 1 / 2 then f
         else if 1 / 2 < d then f + 1
         else if even f then f else f + 1)"

subsection \<open>Strings\<close>

text \<open>The characters \<^verbatim>\<open>str.strip()\<close> removes: those for which \<^verbatim>\<open>str.isspace\<close> holds.\<close>

definition is_space :: "nat \<Rightarrow> bool" where
  "is_space c \<longleftrightarrow>
     (9 \<le> c \<and> c \<le> 13) \<or> (28 \<le> c \<and> c \<le> 32) \<or> c = 133 \<or> c = 160 \<or> c = 5760 \<or>
     (8192 \<le> c \<and> c \<le> 8202) \<or> c = 8232 \<or> c = 8233 \<or> c = 8239 \<or> c = 8287 \<or> c = 12288"

definition strip :: "pystr \<Rightarrow> pystr" where
  "strip s = rev (dropWhile is_space (rev (dropWhile is_space s)))"

text \<open>\<^verbatim>\<open>str(n)\<close> for a natural number, and the format \<^verbatim>\<open>{:0wd}\<close> for an int.\<close>

fun str_nat :: "nat \<Rightarrow> pystr" where
  "str_nat n = (if n < 10 then [48 + n] else str_nat (n div 10) @ [48 + n mod 10])"

definition format_0d :: "nat \<Rightarrow> int \<Rightarrow> pystr" where
  "format_0d w i =
     (let sign = (if i < 0 then [45] else []); ds = str_nat (nat \<bar>i\<bar>)
      in sign @ replicate (w - length sign - length ds) 48 @ ds)"

section \<open>subtitle\_generator.py: time codes\<close>

text \<open>
  \<^verbatim>\<open>datetime.timedelta(seconds=s)\<close> for a float \<open>s\<close>, as the standard library computes it:
  the whole seconds are taken exactly, the fractional part is multiplied by \<open>1e6\<close> in
  floating point, the sum is rounded to a whole number of microseconds (ties to even) and
  normalised into days, seconds in \<open>[0, 86400)\<close> and microseconds in \<open>[0, 10^6)\<close>. More
  than \<open>999999999\<close> days either way raise OverflowError.
\<close>

record timedelta =
  days :: int
  seconds :: int
  microseconds :: int

definition timedelta_of_seconds :: "(rat \<Rightarrow> rat) \<Rightarrow> rat \<Rightarrow> pyerr + timedelta" where
  "timedelta_of_seconds rnd s =
     (let intpart = py_int s;
          fracpart = s - of_int intpart;
          us = (if fracpart = 0 then intpart * 1000000
                else round_half_even (of_int (intpart * 1000000) + rnd (1000000 * fracpart)));
          d = us div 86400000000
      in if \<bar>d\<bar> > 999999999 then Inl OverflowError
         else Inr \<lparr>days = d, seconds = (us div 1000000) mod 86400, microseconds = us mod 1000000\<rparr>)"

text \<open>\<^verbatim>\<open>SubtitleGenerator._format_time\<close>.\<close>

definition format_time :: "(rat \<Rightarrow> rat) \<Rightarrow> rat \<Rightarrow> pyerr + pystr" where
  "format_time rnd secs =
     (case timedelta_of_seconds rnd secs of
        Inl e \<Rightarrow> Inl e
      | Inr td \<Rightarrow>
          (let hours = seconds td div 3600;
               minutes = (seconds td mod 3600) div 60;
               seconds' = seconds td mod 60;
               milliseconds = py_int (rnd (of_int (microseconds td) / 1000))
           in Inr (format_0d 2 hours @ ascii '':'' @ format_0d 2 minutes @ ascii '':'' @
                   format_0d 2 seconds' @ ascii '','' @ format_0d 3 milliseconds)))"

text \<open>
  The percentage every count-based loop reports after item \<open>k\<close> of \<open>tot\<close>:
  \<^verbatim>\<open>int(k / total * 100)\<close>, a float division, a float multiplication and a truncation.
  The progress callback is a sink: the models below return the values passed to it, in
  order (without a callback nothing is reported).
\<close>

definition progress_percent :: "(rat \<Rightarrow> rat) \<Rightarrow> nat \<Rightarrow> nat \<Rightarrow> int" where
  "progress_percent rnd k tot = py_int (rnd (rnd (of_nat k / of_nat tot) * 100))"

section \<open>subtitle\_generator.py: writing the file\<close>

text \<open>
  \<^verbatim>\<open>os.path.splitext\<close>: the extension starts at the last dot of the last path component,
  unless that component has only dots before it. \<open>seps\<close> are the platform's path
  separators (\<open>/\<close> on POSIX, \<open>\\<close> and \<open>/\<close> on Windows). \<open>rfind\<close> is \<^verbatim>\<open>str.rfind\<close>
  for a set of characters: the highest index holding one of them, or \<open>-1\<close>.
\<close>

definition rfind :: "(nat \<Rightarrow> bool) \<Rightarrow> pystr \<Rightarrow> int" where
  "rfind P p = (case filter (\<lambda>i. P (p ! i)) (rev [0..<length p]) of [] \<Rightarrow> - 1 | i # _ \<Rightarrow> int i)"

definition splitext :: "nat list \<Rightarrow> pystr \<Rightarrow> pystr \<times> pystr" where
  "splitext seps p =
     (let sepIndex = rfind (\<lambda>c. c \<in> set seps) p;
          dotIndex = rfind (\<lambda>c. c = 46) p
      in if dotIndex > sepIndex \<and> list_ex (\<lambda>i. p ! i \<noteq> 46) [nat (sepIndex + 1)..<nat dotIndex]
         then (take (nat dotIndex) p, drop (nat dotIndex) p)
         else (p, []))"

text \<open>
  The operating system as \<^verbatim>\<open>generate_srt\<close> sees it: the path separators, which paths
  \<^verbatim>\<open>open(path, "w")\<close> can create or truncate, and the exception it raises for the others
  (FileNotFoundError for a missing directory, another OSError otherwise). The file system
  maps a path to the text of the file. The UTF-8 encoding is not modelled: a str is taken
  to hold code points that UTF-8 encodes, so that a write to an open file succeeds.
\<close>

record os =
  path_seps :: "nat list"
  can_open :: "pystr \<Rightarrow> bool"
  open_error :: "pystr \<Rightarrow> pyerr"

type_synonym filesystem = "pystr \<rightharpoonup> pystr"

record SubtitleGenerator =
  segments :: "segment list"
  output_path :: pystr
  use_translation :: bool

text \<open>
  One iteration of the loop of \<^verbatim>\<open>generate_srt\<close>, without the progress report: \<open>f\<close> is
  the text written to the file so far, \<open>i\<close> the index \<^verbatim>\<open>enumerate\<close> gives. A missing key
  raises KeyError after the writes that precede the lookup.
\<close>

definition write_block ::
  "(rat \<Rightarrow> rat) \<Rightarrow> bool \<Rightarrow> nat \<Rightarrow> segment \<Rightarrow> pystr \<Rightarrow> (pyerr + unit) \<times> pystr" where
  "write_block rnd use_tr i seg f =
     (let f1 = f @ str_nat (i + 1) @ [10]
      in case seg_start seg of
           None \<Rightarrow> (Inl KeyError, f1)
         | Some s \<Rightarrow>
        (case format_time rnd s of
           Inl e \<Rightarrow> (Inl e, f1)
         | Inr start \<Rightarrow>
        (case seg_end seg of
           None \<Rightarrow> (Inl KeyError, f1)
         | Some e \<Rightarrow>
        (case format_time rnd e of
           Inl err \<Rightarrow> (Inl err, f1)
         | Inr end' \<Rightarrow>
        (let f2 = f1 @ start @ ascii '' --> '' @ end' @ [10]
         in if use_tr \<and> seg_translated seg \<noteq> None
            then (Inr (), f2 @ the (seg_translated seg) @ [10] @ [10])
            else if seg_original seg \<noteq> None
            then (Inr (), f2 @ the (seg_original seg) @ [10] @ [10])
            else (case seg_text seg of
                    None \<Rightarrow> (Inl KeyError, f2)
                  | Some t \<Rightarrow> (Inr (), f2 @ t @ [10] @ [10])))))))"

text \<open>
  The loop: \<open>ps\<close> collects the values passed to \<^verbatim>\<open>progress_callback\<close>, in order. The
  first exception ends it.
\<close>

fun write_blocks ::
  "(rat \<Rightarrow> rat) \<Rightarrow> bool \<Rightarrow> nat \<Rightarrow> nat \<Rightarrow> segment list \<Rightarrow> pystr \<Rightarrow> int list \<Rightarrow>
   (pyerr + unit) \<times> pystr \<times> int list" where
  "write_blocks rnd use_tr tot i [] f ps = (Inr (), f, ps)"
| "write_blocks rnd use_tr tot i (seg # rest) f ps =
     (case write_block rnd use_tr i seg f of
        (Inl e, f') \<Rightarrow> (Inl e, f', ps)
      | (Inr _, f') \<Rightarrow>
          write_blocks rnd use_tr tot (i + 1) rest f' (ps @ [progress_percent rnd (i + 1) tot]))"

text \<open>
  \<^verbatim>\<open>SubtitleGenerator.generate_srt\<close>: the returned path or the exception, the file system
  afterwards, and the progress values delivered.
\<close>

definition generate_srt ::
  "(rat \<Rightarrow> rat) \<Rightarrow> os \<Rightarrow> filesystem \<Rightarrow> SubtitleGenerator \<Rightarrow>
   (pyerr + pystr) \<times> filesystem \<times> int list" where
  "generate_srt rnd sys fs self =
     (let srt_path = fst (splitext (path_seps sys) (output_path self)) @ ascii ''.srt''
      in if \<not> can_open sys srt_path then (Inl (open_error sys srt_path), fs, [])
         else (case write_blocks rnd (use_translation self) (length (segments self)) 0
                      (segments self) [] [] of
                 (Inl e, f, ps) \<Rightarrow> (Inl e, fs(srt_path \<mapsto> f), ps)
               | (Inr _, f, ps) \<Rightarrow> (Inr srt_path, fs(srt_path \<mapsto> f), ps)))"

text \<open>
  The text-line policy in the words of the specification: the translated text when it is
  requested and present, else the original when present, else the text.
\<close>

definition spec_text_line :: "bool \<Rightarrow> segment \<Rightarrow> pystr option" where
  "spec_text_line use_tr seg =
     (case (if use_tr then seg_translated seg else None) of
        Some t \<Rightarrow> Some t
      | None \<Rightarrow> (case seg_original seg of Some t \<Rightarrow> Some t | None \<Rightarrow> seg_text seg))"

section \<open>translator.py\<close>

text \<open>
  The fixed parts of the prompts, as code points: the framing put before the joined texts
  (\<open>context_prefix\<close>), and the parts of the per-segment prompt before the context
  (\<open>prompt_head\<close>) and between the context and the segment's text (\<open>prompt_middle\<close>).
\<close>

definition context_prefix :: pystr where
  "context_prefix =
    [20197, 19979, 26159, 19968, 27573, 23545, 35805, 30340, 20840, 37096, 20869, 23481, 65292,
     35831, 20808, 38405, 35835, 24182, 29702, 35299, 25972, 20307, 19978, 19979, 25991, 65306,
     10]"

definition prompt_head :: pystr where
  "prompt_head =
    [20320, 26159, 19968, 20010, 19987, 19994, 30340, 23383, 24149, 32763, 35793, 21161, 25163,
     65292, 36127, 36131, 23558, 32473, 20986, 30340, 35270, 39057, 20869, 23481, 32763, 35793,
     25104, 20013, 25991, 65292, 24182, 20445, 25345, 21407, 25991, 30340, 35821, 27668, 21644,
     39118, 26684, 12290, 10, 10, 32763, 35793, 35268, 21017, 65306, 10, 49, 46, 32, 36755,
     20986, 26684, 24335, 65306, 20165, 36755, 20986, 32763, 35793, 32467, 26524, 65292, 19981,
     35201, 26377, 20219, 20309, 21069, 32512, 12289, 21518, 32512, 25110, 39069, 22806, 35828,
     26126, 10, 50, 46, 32, 35821, 35328, 35201, 27714, 65306, 21482, 20351, 29992, 20013,
     25991, 65292, 31105, 27490, 20351, 29992, 20219, 20309, 20854, 20182, 35821, 35328, 65288,
     21253, 25324, 33521, 25991, 12289, 25968, 23383, 31561, 65289, 10, 51, 46, 32, 26631,
     28857, 31526, 21495, 65306, 20351, 29992, 20013, 25991, 26631, 28857, 65292, 21477, 20013,
     26631, 28857, 20445, 30041, 65292, 21477, 26411, 26631, 28857, 21487, 30465, 30053, 10,
     52, 46, 32, 32763, 35793, 39118, 26684, 65306, 10, 32, 32, 32, 45, 32, 20445, 25345,
     21407, 25991, 30340, 35821, 27668, 21644, 39118, 26684, 10, 32, 32, 32, 45, 32, 20351,
     29992, 33258, 28982, 12289, 27969, 30021, 30340, 20013, 25991, 34920, 36798, 10, 32, 32,
     32, 45, 32, 20445, 25345, 32763, 35793, 30340, 19968, 33268, 24615, 10, 32, 32, 32, 45,
     32, 36866, 21512, 23383, 24149, 38405, 35835, 30340, 31616, 27905, 34920, 36798, 10, 10]"

definition prompt_middle :: pystr where
  "prompt_middle =
    [10, 10, 19979, 38754, 26159, 20960, 20010, 31034, 20363, 65292, 35831, 21442, 32771,
     65306, 10, 21407, 25991, 65306, 73, 32, 119, 97, 110, 116, 32, 116, 111, 32, 116, 101,
     115, 116, 32, 116, 104, 105, 115, 32, 112, 114, 111, 103, 114, 97, 109, 46, 10, 32763,
     35793, 65306, 25105, 24819, 27979, 35797, 36825, 20010, 31243, 24207, 10, 10, 21407,
     25991, 65306, 84, 104, 101, 32, 119, 101, 97, 116, 104, 101, 114, 32, 105, 115, 32, 110,
     105, 99, 101, 32, 116, 111, 100, 97, 121, 44, 32, 105, 115, 110, 39, 116, 32, 105, 116,
     63, 10, 32763, 35793, 65306, 20170, 22825, 22825, 27668, 30495, 19981, 38169, 10, 10,
     21407, 25991, 65306, 80, 108, 101, 97, 115, 101, 32, 119, 97, 105, 116, 32, 97, 32, 109,
     111, 109, 101, 110, 116, 46, 10, 32763, 35793, 65306, 35831, 31245, 31561, 10, 10, 10,
     29616, 22312, 35831, 32763, 35793, 20197, 19979, 25991, 26412, 65306, 10]"

text \<open>
  The translation engine: \<^verbatim>\<open>subprocess.run(cmd, capture_output=True, text=True, check=True)\<close>
  either completes with a standard output or raises (CalledProcessError on a non-zero
  exit, another exception when the process cannot be started or its output not decoded).
  The answer may depend on the command and on how many invocations came before.
\<close>

datatype completed = Completed pystr | Raised pyerr

type_synonym engine = "nat \<Rightarrow> pystr list \<Rightarrow> completed"

record Translator =
  use_local_model :: bool
  model_name :: "pystr option"

text \<open>Truthiness of an optional str: neither \<^verbatim>\<open>None\<close> nor empty.\<close>

definition truthy :: "pystr option \<Rightarrow> bool" where
  "truthy s \<longleftrightarrow> (case s of None \<Rightarrow> False | Some t \<Rightarrow> t \<noteq> [])"

definition join :: "pystr \<Rightarrow> pystr list \<Rightarrow> pystr" where
  "join sep xs = (case xs of [] \<Rightarrow> [] | x # rest \<Rightarrow> x @ concat (map (\<lambda>y. sep @ y) rest))"

text \<open>
  The post-processing of the engine's answer in \<^verbatim>\<open>translate_with_ollama\<close>.
  \<open>allowed_punct\<close> is the string the two adjacent literals of the source make up;
  \<open>allowed_char\<close> is the character class of the regular expression; \<open>findall_runs\<close> is
  \<^verbatim>\<open>re.findall\<close> for the pattern \<^verbatim>\<open>[class]+\<close>: the maximal runs, left to right.
\<close>

definition allowed_punct :: pystr where
  "allowed_punct =
    [65292, 12290, 65281, 65311, 65306, 65307, 12289, 34, 34, 8230, 8230, 8212, 183,
     12298, 12299, 12304, 12305]"

definition allowed_char :: "nat \<Rightarrow> bool" where
  "allowed_char c \<longleftrightarrow>
     (19968 \<le> c \<and> c \<le> 40869) \<or> (97 \<le> c \<and> c \<le> 122) \<or> (65 \<le> c \<and> c \<le> 90) \<or>
     (48 \<le> c \<and> c \<le> 57) \<or> c \<in> set allowed_punct"

function findall_runs :: "(nat \<Rightarrow> bool) \<Rightarrow> pystr \<Rightarrow> pystr list" where
  "findall_runs P [] = []"
| "findall_runs P (c # cs) =
     (if P c then (c # takeWhile P cs) # findall_runs P (dropWhile P cs)
      else findall_runs P cs)"
  by pat_completeness auto
termination
  by (relation "measure (\<lambda>(P, s). length s)")
     (auto simp: less_Suc_eq_le length_dropWhile_le)

definition sanitize :: "pystr \<Rightarrow> pystr" where
  "sanitize stdout =
     (let translated_text = strip stdout;
          filtered = findall_runs allowed_char translated_text;
          translated_text = concat filtered;
          translated_text =
            (if translated_text \<noteq> [] \<and> last translated_text \<in> set allowed_punct
             then butlast translated_text else translated_text)
      in strip translated_text)"

text \<open>
  \<^verbatim>\<open>Translator.translate_with_ollama\<close>. \<open>calls\<close> is the list of the commands run so far;
  the result comes with the list after the call.
\<close>

definition translate_with_ollama ::
  "Translator \<Rightarrow> engine \<Rightarrow> pystr list list \<Rightarrow> pystr \<Rightarrow> pystr \<Rightarrow>
   (pyerr + pystr) \<times> pystr list list" where
  "translate_with_ollama self run calls context txt =
     (if txt = [] \<or> strip txt = [] then (Inl ValueError, calls)
      else if \<not> truthy (model_name self) then (Inl (RuntimeError None), calls)
      else
        (let prompt = prompt_head @ context @ prompt_middle @ txt;
             cmd = [ascii ''ollama'', ascii ''run'', the (model_name self), prompt]
         in case run (length calls) cmd of
              Raised CalledProcessError \<Rightarrow> (Inl CalledProcessError, calls @ [cmd])
            | Raised e \<Rightarrow> (Inl (RuntimeError (Some e)), calls @ [cmd])
            | Completed stdout \<Rightarrow>
                if stdout = [] \<or> strip stdout = []
                then (Inl (RuntimeError (Some (RuntimeError None))), calls @ [cmd])
                else (Inr (sanitize stdout), calls @ [cmd])))"

text \<open>
  The body of the loop of \<^verbatim>\<open>translate_segments\<close> up to the append, inside its
  \<^verbatim>\<open>try\<close>: the new dict has the four keys \<open>start\<close>, \<open>end\<close>, \<open>original\<close>, \<open>translated\<close>.
\<close>

definition translate_segment ::
  "Translator \<Rightarrow> engine \<Rightarrow> pystr \<Rightarrow> segment \<Rightarrow> pystr list list \<Rightarrow>
   (pyerr + segment) \<times> pystr list list" where
  "translate_segment self run context_prompt seg calls =
     (case seg_text seg of
        None \<Rightarrow> (Inl ValueError, calls)
      | Some txt \<Rightarrow>
          (case (if use_local_model self \<and> truthy (model_name self)
                 then translate_with_ollama self run calls context_prompt txt
                 else (Inr txt, calls)) of
             (Inl e, calls') \<Rightarrow> (Inl e, calls')
           | (Inr translated_text, calls') \<Rightarrow>
               (case seg_start seg of
                  None \<Rightarrow> (Inl KeyError, calls')
                | Some s \<Rightarrow>
               (case seg_end seg of
                  None \<Rightarrow> (Inl KeyError, calls')
                | Some e \<Rightarrow>
                    (Inr \<lparr>seg_start = Some s, seg_end = Some e, seg_text = None,
                          seg_original = Some txt, seg_translated = Some translated_text\<rparr>,
                     calls')))))"

text \<open>
  The loop. The state is the list built so far, the progress values delivered and the
  engine commands run; an exception of the body is re-raised as a RuntimeError from it.
\<close>

record tstate =
  translated_segments :: "segment list"
  progress :: "int list"
  engine_calls :: "pystr list list"

fun translate_loop ::
  "(rat \<Rightarrow> rat) \<Rightarrow> Translator \<Rightarrow> engine \<Rightarrow> pystr \<Rightarrow> nat \<Rightarrow> nat \<Rightarrow> segment list \<Rightarrow> tstate \<Rightarrow>
   pyerr option \<times> tstate" where
  "translate_loop rnd self run ctx tot i [] st = (None, st)"
| "translate_loop rnd self run ctx tot i (seg # rest) st =
     (case translate_segment self run ctx seg (engine_calls st) of
        (Inl e, calls') \<Rightarrow> (Some (RuntimeError (Some e)), st\<lparr>engine_calls := calls'\<rparr>)
      | (Inr new, calls') \<Rightarrow>
          translate_loop rnd self run ctx tot (i + 1) rest
            \<lparr>translated_segments = translated_segments st @ [new],
             progress = progress st @ [progress_percent rnd (i + 1) tot],
             engine_calls = calls'\<rparr>)"

text \<open>
  \<^verbatim>\<open>Translator.translate_segments\<close>: the returned list or the exception, the progress
  values delivered and the engine commands run. The empty list is refused before the
  \<^verbatim>\<open>try\<close>; every exception inside it is re-raised as a RuntimeError from it. With the
  engine enabled, joining the texts raises KeyError when a segment has none.
\<close>

definition translate_segments ::
  "(rat \<Rightarrow> rat) \<Rightarrow> Translator \<Rightarrow> engine \<Rightarrow> segment list \<Rightarrow>
   (pyerr + segment list) \<times> int list \<times> pystr list list" where
  "translate_segments rnd self run segs =
     (if segs = [] then (Inl ValueError, [], [])
      else if use_local_model self \<and> truthy (model_name self) \<and>
              list_ex (\<lambda>seg. seg_text seg = None) segs
      then (Inl (RuntimeError (Some KeyError)), [], [])
      else
        (let tot = length segs;
             context_prompt =
               context_prefix @ join (ascii ''\<newline>---\<newline>'') (map (\<lambda>seg. the (seg_text seg)) segs)
         in case translate_loop rnd self run context_prompt tot 0 segs
                   \<lparr>translated_segments = [], progress = [], engine_calls = []\<rparr> of
              (Some e, st) \<Rightarrow> (Inl (RuntimeError (Some e)), progress st, engine_calls st)
            | (None, st) \<Rightarrow> (Inr (translated_segments st), progress st, engine_calls st)))"

subsection \<open>The store as an object\<close>

text \<open>
  Python passes the store by reference: \<^verbatim>\<open>segments\<close> is a list object holding references
  to dict objects. To tell a store that is rebuilt from one that is changed in place,
  the objects live in a heap, a list of objects addressed by their index; a new object is
  put at the end. The floats and strs inside a dict are immutable and stay values. The
  engine is another process and the progress callback is the signal of the window:
  neither holds a reference to the store. The functions below do on the heap what
  \<open>translate_loop\<close> and \<open>translate_segments\<close> above do on the segments read from it.
\<close>

datatype obj = DictObj segment | ListObj "nat list"

type_synonym heap = "obj list"

definition alloc :: "heap \<Rightarrow> obj \<Rightarrow> heap \<times> nat" where
  "alloc h ob = (h @ [ob], length h)"

definition list_at :: "heap \<Rightarrow> nat \<Rightarrow> nat list" where
  "list_at h a = (case h ! a of ListObj xs \<Rightarrow> xs | DictObj seg \<Rightarrow> [])"

definition dict_at :: "heap \<Rightarrow> nat \<Rightarrow> segment" where
  "dict_at h a =
     (case h ! a of
        DictObj seg \<Rightarrow> seg
      | ListObj xs \<Rightarrow>
          \<lparr>seg_start = None, seg_end = None, seg_text = None, seg_original = None,
           seg_translated = None\<rparr>)"

text \<open>\<^verbatim>\<open>xs.append(x)\<close> changes the list object at \<open>l\<close> in place.\<close>

definition list_append :: "heap \<Rightarrow> nat \<Rightarrow> nat \<Rightarrow> heap" where
  "list_append h l x = h[l := ListObj (list_at h l @ [x])]"

text \<open>
  The loop of \<^verbatim>\<open>translate_segments\<close> on the heap: \<open>l\<close> is the address of
  \<^verbatim>\<open>translated_segments\<close>, \<open>refs\<close> are the references still to visit. The dict literal
  makes a new object, and \<^verbatim>\<open>append\<close> puts its address into the list at \<open>l\<close>; the dict
  the loop reads is never written to.
\<close>

fun translate_loop_heap ::
  "(rat \<Rightarrow> rat) \<Rightarrow> Translator \<Rightarrow> engine \<Rightarrow> pystr \<Rightarrow> nat \<Rightarrow> nat \<Rightarrow> nat \<Rightarrow> nat list \<Rightarrow> heap \<Rightarrow>
   int list \<Rightarrow> pystr list list \<Rightarrow> pyerr option \<times> heap \<times> int list \<times> pystr list list" where
  "translate_loop_heap rnd self run ctx tot i l [] h ps calls = (None, h, ps, calls)"
| "translate_loop_heap rnd self run ctx tot i l (a # rest) h ps calls =
     (case translate_segment self run ctx (dict_at h a) calls of
        (Inl e, calls') \<Rightarrow> (Some (RuntimeError (Some e)), h, ps, calls')
      | (Inr new, calls') \<Rightarrow>
          (case alloc h (DictObj new) of
             (h1, d) \<Rightarrow>
               translate_loop_heap rnd self run ctx tot (i + 1) l rest (list_append h1 l d)
                 (ps @ [progress_percent rnd (i + 1) tot]) calls'))"

text \<open>
  \<^verbatim>\<open>Translator.translate_segments\<close> on the heap, called with the address \<open>a\<close> of the
  store: the returned reference or the exception, the heap afterwards, the progress values
  and the engine commands. \<^verbatim>\<open>translated_segments = []\<close> makes the new list before
  anything is read.
\<close>

definition translate_segments_heap ::
  "(rat \<Rightarrow> rat) \<Rightarrow> Translator \<Rightarrow> engine \<Rightarrow> heap \<Rightarrow> nat \<Rightarrow>
   (pyerr + nat) \<times> heap \<times> int list \<times> pystr list list" where
  "translate_segments_heap rnd self run h a =
     (let refs = list_at h a
      in if refs = [] then (Inl ValueError, h, [], [])
         else
           (case alloc h (ListObj []) of
              (h0, l) \<Rightarrow>
                if use_local_model self \<and> truthy (model_name self) \<and>
                   list_ex (\<lambda>x. seg_text (dict_at h0 x) = None) refs
                then (Inl (RuntimeError (Some KeyError)), h0, [], [])
                else
                  (let context_prompt =
                         context_prefix @
                         join (ascii ''\<newline>---\<newline>'')
                           (map (\<lambda>x. the (seg_text (dict_at h0 x))) refs)
                   in case translate_loop_heap rnd self run context_prompt (length refs) 0 l
                             refs h0 [] [] of
                        (Some e, h', ps, calls) \<Rightarrow> (Inl (RuntimeError (Some e)), h', ps, calls)
                      | (None, h', ps, calls) \<Rightarrow> (Inr l, h', ps, calls))))"

section \<open>audio\_transcriber.py\<close>

datatype device = Cuda | Cpu

record AudioTranscriber =
  use_faster_whisper :: bool
  model_path :: "pystr option"
  use_gpu :: bool
  compute_type :: pystr
  device :: device

text \<open>\<^verbatim>\<open>AudioTranscriber.__init__\<close>; \<open>cuda_available\<close> is \<^verbatim>\<open>torch.cuda.is_available()\<close>.\<close>

definition init_AudioTranscriber ::
  "bool \<Rightarrow> bool \<Rightarrow> pystr option \<Rightarrow> bool \<Rightarrow> pystr \<Rightarrow> AudioTranscriber" where
  "init_AudioTranscriber cuda_available use_fw path gpu ctype =
     \<lparr>use_faster_whisper = use_fw, model_path = path, use_gpu = gpu, compute_type = ctype,
      device = (if cuda_available \<and> gpu then Cuda else Cpu)\<rparr>"

text \<open>
  What a backend yields for one segment, and the backends themselves: whether a path
  exists, whether \<^verbatim>\<open>import whisper\<close> succeeds, loading and running the Whisper model
  (\<open>Some e\<close> is the exception \<open>e\<close>), and the same for faster-whisper, whose \<^verbatim>\<open>transcribe\<close>
  returns a generator (its items, and the exception it ends with, if any) and the
  duration of the audio.
\<close>

record raw_segment =
  raw_start :: rat
  raw_end :: rat
  raw_text :: pystr

record backends =
  path_exists :: "pystr \<Rightarrow> bool"
  whisper_importable :: bool
  whisper_load_model :: "device \<Rightarrow> pyerr option"
  whisper_transcribe :: "device \<Rightarrow> pystr \<Rightarrow> bool \<Rightarrow> pyerr + raw_segment list"
  faster_load_model :: "pystr option \<Rightarrow> device \<Rightarrow> pystr \<Rightarrow> pyerr option"
  faster_transcribe :: "pystr \<Rightarrow> pyerr + (raw_segment list \<times> pyerr option \<times> rat)"

text \<open>The calls made to the backends, in order.\<close>

datatype backend_call =
    WhisperLoad device
  | WhisperTranscribe pystr bool
  | FasterWhisperLoad "pystr option" device pystr
  | FasterWhisperTranscribe pystr

fun is_faster_whisper :: "backend_call \<Rightarrow> bool" where
  "is_faster_whisper (FasterWhisperLoad p d c) = True"
| "is_faster_whisper (FasterWhisperTranscribe p) = True"
| "is_faster_whisper _ = False"

definition segment_of_raw :: "raw_segment \<Rightarrow> segment" where
  "segment_of_raw r =
     \<lparr>seg_start = Some (raw_start r), seg_end = Some (raw_end r),
      seg_text = Some (strip (raw_text r)), seg_original = None, seg_translated = None\<rparr>"

text \<open>The loop of \<^verbatim>\<open>transcribe_with_whisper\<close>: the list built and the progress values.\<close>

fun whisper_loop ::
  "(rat \<Rightarrow> rat) \<Rightarrow> nat \<Rightarrow> nat \<Rightarrow> raw_segment list \<Rightarrow> segment list \<Rightarrow> int list \<Rightarrow>
   segment list \<times> int list" where
  "whisper_loop rnd tot i [] segs ps = (segs, ps)"
| "whisper_loop rnd tot i (r # rest) segs ps =
     whisper_loop rnd tot (i + 1) rest (segs @ [segment_of_raw r])
       (ps @ [progress_percent rnd (i + 1) tot])"

text \<open>
  \<^verbatim>\<open>AudioTranscriber.transcribe_with_whisper\<close>: the result, the progress values delivered
  and the backend calls made. Everything raised inside the \<^verbatim>\<open>try\<close>, the
  ModuleNotFoundError included, is re-raised as a RuntimeError from it.
\<close>

definition transcribe_with_whisper ::
  "(rat \<Rightarrow> rat) \<Rightarrow> backends \<Rightarrow> AudioTranscriber \<Rightarrow> pystr \<Rightarrow>
   (pyerr + segment list) \<times> int list \<times> backend_call list" where
  "transcribe_with_whisper rnd env self audio_path =
     (if \<not> path_exists env audio_path then (Inl FileNotFoundError, [], [])
      else if \<not> whisper_importable env
      then (Inl (RuntimeError (Some ModuleNotFoundError)), [], [])
      else
        (case whisper_load_model env (device self) of
           Some e \<Rightarrow> (Inl (RuntimeError (Some e)), [], [WhisperLoad (device self)])
         | None \<Rightarrow>
             (let use_fp16 = (device self = Cuda \<and>
                              compute_type self \<in> set [ascii ''float16'', ascii ''int8'']);
                  calls = [WhisperLoad (device self), WhisperTranscribe audio_path use_fp16]
              in case whisper_transcribe env (device self) audio_path use_fp16 of
                   Inl e \<Rightarrow> (Inl (RuntimeError (Some e)), [], calls)
                 | Inr result \<Rightarrow>
                     (case whisper_loop rnd (length result) 0 result [] [] of
                        (segs, ps) \<Rightarrow> (Inr segs, ps, calls)))))"

text \<open>
  The loop of \<^verbatim>\<open>transcribe_with_faster_whisper\<close>: the progress of a segment is
  \<^verbatim>\<open>int(segment.end / total_duration * 100)\<close>, and the division raises
  ZeroDivisionError for a duration of zero, after the segment was appended.
\<close>

fun faster_loop ::
  "(rat \<Rightarrow> rat) \<Rightarrow> rat \<Rightarrow> raw_segment list \<Rightarrow> segment list \<Rightarrow> int list \<Rightarrow>
   pyerr option \<times> segment list \<times> int list" where
  "faster_loop rnd total_duration [] result ps = (None, result, ps)"
| "faster_loop rnd total_duration (r # rest) result ps =
     (if total_duration = 0 then (Some ZeroDivisionError, result @ [segment_of_raw r], ps)
      else faster_loop rnd total_duration rest (result @ [segment_of_raw r])
             (ps @ [py_int (rnd (rnd (raw_end r / total_duration) * 100))]))"

text \<open>\<^verbatim>\<open>AudioTranscriber.transcribe_with_faster_whisper\<close>.\<close>

definition transcribe_with_faster_whisper ::
  "(rat \<Rightarrow> rat) \<Rightarrow> backends \<Rightarrow> AudioTranscriber \<Rightarrow> pystr \<Rightarrow>
   (pyerr + segment list) \<times> int list \<times> backend_call list" where
  "transcribe_with_faster_whisper rnd env self audio_path =
     (if \<not> path_exists env audio_path then (Inl FileNotFoundError, [], [])
      else
        (let load = FasterWhisperLoad (model_path self) (device self) (compute_type self)
         in case faster_load_model env (model_path self) (device self) (compute_type self) of
              Some e \<Rightarrow> (Inl (RuntimeError (Some e)), [], [load])
            | None \<Rightarrow>
                (let calls = [load, FasterWhisperTranscribe audio_path]
                 in case faster_transcribe env audio_path of
                      Inl e \<Rightarrow> (Inl (RuntimeError (Some e)), [], calls)
                    | Inr (items, raised, total_duration) \<Rightarrow>
                        (case faster_loop rnd total_duration items [] [] of
                           (Some e, result, ps) \<Rightarrow> (Inl (RuntimeError (Some e)), ps, calls)
                         | (None, result, ps) \<Rightarrow>
                             (case raised of
                                Some e \<Rightarrow> (Inl (RuntimeError (Some e)), ps, calls)
                              | None \<Rightarrow> (Inr result, ps, calls))))))"

text \<open>\<^verbatim>\<open>AudioTranscriber.transcribe\<close>: the dispatch on the configuration.\<close>

definition transcribe ::
  "(rat \<Rightarrow> rat) \<Rightarrow> backends \<Rightarrow> AudioTranscriber \<Rightarrow> pystr \<Rightarrow>
   (pyerr + segment list) \<times> int list \<times> backend_call list" where
  "transcribe rnd env self audio_path =
     (if use_faster_whisper self \<and> truthy (model_path self)
      then transcribe_with_faster_whisper rnd env self audio_path
      else transcribe_with_whisper rnd env self audio_path)"




section \<open>Notions of the specification\<close>

text \<open>Translation is enabled: the local model is to be used and has a name.\<close>

definition engine_enabled :: "Translator \<Rightarrow> bool" where
  "engine_enabled self \<longleftrightarrow> use_local_model self \<and> truthy (model_name self)"

text \<open>A segment whose text is empty or blank, as \<^verbatim>\<open>translate_with_ollama\<close> tests it.\<close>

definition blank_text :: "segment \<Rightarrow> bool" where
  "blank_text seg \<longleftrightarrow> (case seg_text seg of None \<Rightarrow> False | Some t \<Rightarrow> t = [] \<or> strip t = [])"

text \<open>
  What \<^verbatim>\<open>translate_segments\<close> makes of a segment: a dict with the keys \<open>start\<close>, \<open>end\<close>,
  \<open>original\<close> and \<open>translated\<close>, and no \<open>text\<close>.
\<close>

definition translated_from :: "segment \<Rightarrow> segment \<Rightarrow> bool" where
  "translated_from seg new \<longleftrightarrow>
     seg_start new = seg_start seg \<and> seg_end new = seg_end seg \<and>
     seg_original new = seg_text seg \<and> seg_text new = None \<and>
     seg_start new \<noteq> None \<and> seg_end new \<noteq> None \<and> seg_original new \<noteq> None \<and>
     seg_translated new \<noteq> None"

text \<open>
  A reference to a store: the address of a list object whose elements are addresses of
  dict objects; and the segments such a reference leads to.
\<close>

definition store_ref :: "heap \<Rightarrow> nat \<Rightarrow> bool" where
  "store_ref h a \<longleftrightarrow>
     a < length h \<and>
     (\<exists>xs. h ! a = ListObj xs \<and> (\<forall>x \<in> set xs. x < length h \<and> (\<exists>seg. h ! x = DictObj seg)))"

definition read_store :: "heap \<Rightarrow> nat \<Rightarrow> segment list" where
  "read_store h a = map (dict_at h) (list_at h a)"

text \<open>The third step of \<open>sanitize\<close> on its own: one final punctuation character goes.\<close>

definition drop_final_punct :: "pystr \<Rightarrow> pystr" where
  "drop_final_punct t = (if t \<noteq> [] \<and> last t \<in> set allowed_punct then butlast t else t)"

text \<open>The percentages of the items \<open>i + 1\<close> to \<open>i + n\<close> of \<open>tot\<close>.\<close>

definition progress_values :: "(rat \<Rightarrow> rat) \<Rightarrow> nat \<Rightarrow> nat \<Rightarrow> nat \<Rightarrow> int list" where
  "progress_values rnd tot i n = map (\<lambda>k. progress_percent rnd k tot) [Suc i..<Suc i + n]"

text \<open>
  What the specification asks of the progress values of one run: there are some, all lie
  in \<open>[0, 100]\<close>, they never decrease, and the last one is 100.
\<close>

definition progress_ok :: "int list \<Rightarrow> bool" where
  "progress_ok ps \<longleftrightarrow>
     ps \<noteq> [] \<and> (\<forall>v \<in> set ps. 0 \<le> v \<and> v \<le> 100) \<and> sorted ps \<and> last ps = 100"

text \<open>
  The subtitle file in the words of the specification. The time-range line of a segment,
  when it has both times and both can be formatted.
\<close>

definition time_line :: "(rat \<Rightarrow> rat) \<Rightarrow> segment \<Rightarrow> pystr option" where
  "time_line rnd seg =
     (case seg_start seg of
        None \<Rightarrow> None
      | Some s \<Rightarrow>
     (case format_time rnd s of
        Inl e \<Rightarrow> None
      | Inr a \<Rightarrow>
     (case seg_end seg of
        None \<Rightarrow> None
      | Some e \<Rightarrow>
     (case format_time rnd e of
        Inl err \<Rightarrow> None
      | Inr b \<Rightarrow> Some (a @ ascii '' --> '' @ b)))))"

text \<open>
  The block of the segment with index \<open>i\<close>: its 1-based number, the time-range line, the
  text line chosen by \<open>spec_text_line\<close>, and a blank line.
\<close>

definition srt_block :: "(rat \<Rightarrow> rat) \<Rightarrow> bool \<Rightarrow> nat \<Rightarrow> segment \<Rightarrow> pystr option" where
  "srt_block rnd use_tr i seg =
     (case time_line rnd seg of
        None \<Rightarrow> None
      | Some stamp \<Rightarrow>
     (case spec_text_line use_tr seg of
        None \<Rightarrow> None
      | Some t \<Rightarrow> Some (str_nat (i + 1) @ [10] @ stamp @ [10] @ t @ [10] @ [10])))"

text \<open>The blocks of the segments in order, numbered from \<open>i + 1\<close>.\<close>

fun srt_text :: "(rat \<Rightarrow> rat) \<Rightarrow> bool \<Rightarrow> nat \<Rightarrow> segment list \<Rightarrow> pystr option" where
  "srt_text rnd use_tr i [] = Some []"
| "srt_text rnd use_tr i (seg # rest) =
     (case srt_block rnd use_tr i seg of
        None \<Rightarrow> None
      | Some b \<Rightarrow>
     (case srt_text rnd use_tr (i + 1) rest of
        None \<Rightarrow> None
      | Some r \<Rightarrow> Some (b @ r)))"

text \<open>Lines, each ended by a newline.\<close>

definition text_of_lines :: "pystr list \<Rightarrow> pystr" where
  "text_of_lines ls = concat (map (\<lambda>l. l @ [10]) ls)"

section \<open>Example values\<close>

text \<open>Exact arithmetic in place of rounding, for the concrete runs below.\<close>

definition no_rounding :: "rat \<Rightarrow> rat" where
  "no_rounding x = x"

text \<open>
  Backends that work and yield one segment each, the faster-whisper one ending at 5
  seconds of an audio of 10; and the same with a faster-whisper segment ending at 20
  seconds of 10.
\<close>

definition example_backends :: backends where
  "example_backends =
     \<lparr>path_exists = (\<lambda>p. True),
      whisper_importable = True,
      whisper_load_model = (\<lambda>d. None),
      whisper_transcribe =
        (\<lambda>d p fp16. Inr [\<lparr>raw_start = 0, raw_end = 5 / 2, raw_text = ascii '' Hello''\<rparr>]),
      faster_load_model = (\<lambda>m d c. None),
      faster_transcribe =
        (\<lambda>p. Inr ([\<lparr>raw_start = 0, raw_end = 5, raw_text = ascii '' Hello''\<rparr>], None, 10))\<rparr>"

definition late_backends :: backends where
  "late_backends = example_backends
     \<lparr>faster_transcribe :=
        (\<lambda>p. Inr ([\<lparr>raw_start = 0, raw_end = 20, raw_text = ascii '' Hello''\<rparr>], None, 10))\<rparr>"

text \<open>A transcriber on a machine without CUDA, an audio path and a model path.\<close>

definition example_transcriber :: "bool \<Rightarrow> pystr option \<Rightarrow> AudioTranscriber" where
  "example_transcriber use_fw path = init_AudioTranscriber False use_fw path True (ascii ''float16'')"

definition example_path :: pystr where
  "example_path = ascii ''a.wav''"

definition example_model :: pystr where
  "example_model = ascii ''m''"

text \<open>
  An engine that answers every prompt with the same two Chinese characters, a translator
  with the engine enabled and one without.
\<close>

definition example_engine :: engine where
  "example_engine = (\<lambda>n cmd. Completed [20320, 22909])"

definition example_translator :: Translator where
  "example_translator = \<lparr>use_local_model = True, model_name = Some (ascii ''gemma'')\<rparr>"

definition disabled_translator :: Translator where
  "disabled_translator = \<lparr>use_local_model = False, model_name = Some (ascii ''gemma'')\<rparr>"

text \<open>
  The segment \<^verbatim>\<open>{"start": 0.0, "end": 2.5, "text": "Hello"}\<close>, what a translation makes
  of it, and the segment \<^verbatim>\<open>{"text": ""}\<close>.
\<close>

definition hello_segment :: segment where
  "hello_segment =
     \<lparr>seg_start = Some 0, seg_end = Some (5 / 2), seg_text = Some (ascii ''Hello''),
      seg_original = None, seg_translated = None\<rparr>"

definition translated_hello_segment :: segment where
  "translated_hello_segment =
     \<lparr>seg_start = Some 0, seg_end = Some (5 / 2), seg_text = None,
      seg_original = Some (ascii ''Hello''), seg_translated = Some [20320, 22909]\<rparr>"

definition empty_text_segment :: segment where
  "empty_text_segment =
     \<lparr>seg_start = None, seg_end = None, seg_text = Some [],
      seg_original = None, seg_translated = None\<rparr>"

text \<open>A POSIX system on which every file can be opened.\<close>

definition posix :: os where
  "posix = \<lparr>path_seps = [47], can_open = (\<lambda>p. True), open_error = (\<lambda>p. OSError)\<rparr>"

text \<open>
  A second segment, and backends whose Whisper model yields two segments.
\<close>

definition world_segment :: segment where
  "world_segment =
     \<lparr>seg_start = Some (5 / 2), seg_end = Some 4, seg_text = Some (ascii ''World''),
      seg_original = None, seg_translated = None\<rparr>"

definition two_segment_backends :: backends where
  "two_segment_backends = example_backends
     \<lparr>whisper_transcribe :=
        (\<lambda>d p fp16. Inr [\<lparr>raw_start = 0, raw_end = 5 / 2, raw_text = ascii '' Hello''\<rparr>,
                          \<lparr>raw_start = 5 / 2, raw_end = 4, raw_text = ascii '' World''\<rparr>])\<rparr>"




text \<open>
  What a translation makes of the second segment; a heap holding the store of the two
  segments at address 2, and one holding the store of the first segment at address 1.
\<close>

definition translated_world_segment :: segment where
  "translated_world_segment =
     \<lparr>seg_start = Some (5 / 2), seg_end = Some 4, seg_text = None,
      seg_original = Some (ascii ''World''), seg_translated = Some [20320, 22909]\<rparr>"

definition two_segment_heap :: heap where
  "two_segment_heap = [DictObj hello_segment, DictObj world_segment, ListObj [0, 1]]"

definition hello_heap :: heap where
  "hello_heap = [DictObj hello_segment, ListObj [0]]"

section \<open>Results\<close>

lemma example_model_nonempty: "example_model \<noteq> []"
  by (simp add: example_model_def ascii_def)

lemma replicate_numeral: "replicate (numeral k) x = x # replicate (pred_numeral k) x"
  by (simp add: numeral_eq_Suc)

lemma float_rounding_int:
  "float_rounding rnd \<Longrightarrow> \<bar>n\<bar> \<le> 2 ^ 53 \<Longrightarrow> rnd (of_int n) = of_int n"
  by (simp add: float_rounding_def)

lemma float_rounding_0: "float_rounding rnd \<Longrightarrow> rnd 0 = 0"
  using float_rounding_int [of rnd 0] by simp

lemma float_rounding_1: "float_rounding rnd \<Longrightarrow> rnd 1 = 1"
  using float_rounding_int [of rnd 1] by simp

lemma float_rounding_100: "float_rounding rnd \<Longrightarrow> rnd 100 = 100"
  using float_rounding_int [of rnd 100] by simp

lemma float_rounding_500: "float_rounding rnd \<Longrightarrow> rnd 500 = 500"
  using float_rounding_int [of rnd 500] by simp

lemma float_rounding_500000: "float_rounding rnd \<Longrightarrow> rnd 500000 = 500000"
  using float_rounding_int [of rnd 500000] by simp

lemma float_rounding_mono: "float_rounding rnd \<Longrightarrow> x \<le> y \<Longrightarrow> rnd x \<le> rnd y"
  by (simp add: float_rounding_def)

lemma float_rounding_error:
  "float_rounding rnd \<Longrightarrow> 1 / 2 ^ 64 \<le> x \<Longrightarrow> x \<le> 2 ^ 64 \<Longrightarrow> \<bar>rnd x - x\<bar> \<le> x / 2 ^ 53"
  by (simp add: float_rounding_def)

lemma float_rounding_no_rounding: "float_rounding no_rounding"
  by (simp add: float_rounding_def no_rounding_def)

text \<open>
  C2. \<^verbatim>\<open>_format_time\<close> reads \<^verbatim>\<open>td.seconds\<close>, which is the seconds within the day, and
  never \<^verbatim>\<open>td.days\<close>: for \<open>90000.0\<close> seconds (25 hours) it returns \<open>01:00:00,000\<close>, not
  \<open>25:00:00,000\<close>.
\<close>

theorem format_time_90000:
  assumes "float_rounding rnd"
  shows "format_time rnd 90000 = Inr (ascii ''01:00:00,000'')"
  using float_rounding_0 [OF assms]
  by (simp add: format_time_def timedelta_of_seconds_def py_int_def format_0d_def ascii_def
      replicate_numeral)

theorem format_time_90000_witness:
  "float_rounding no_rounding \<and> format_time no_rounding 90000 = Inr (ascii ''01:00:00,000'')"
  using format_time_90000 [OF float_rounding_no_rounding] float_rounding_no_rounding by simp

subsection \<open>Transcription: dispatch and missing dependency\<close>

lemma whisper_no_faster_calls:
  "\<forall>c \<in> set (snd (snd (transcribe_with_whisper rnd env self p))). \<not> is_faster_whisper c"
  by (auto simp: transcribe_with_whisper_def Let_def split: option.splits sum.splits prod.splits)

text \<open>
  C10. With \<open>use_faster_whisper\<close> set and \<open>model_path\<close> \<^verbatim>\<open>None\<close> or empty, \<open>transcribe\<close> is
  \<open>transcribe_with_whisper\<close> and calls nothing of faster-whisper; whenever \<open>transcribe\<close>
  calls faster-whisper, \<open>use_faster_whisper\<close> is set and \<open>model_path\<close> is a non-empty str.
\<close>

theorem transcribe_dispatch:
  "(use_faster_whisper self \<and> (model_path self = None \<or> model_path self = Some []) \<longrightarrow>
      transcribe rnd env self p = transcribe_with_whisper rnd env self p \<and>
      (\<forall>c \<in> set (snd (snd (transcribe rnd env self p))). \<not> is_faster_whisper c)) \<and>
   ((\<exists>c \<in> set (snd (snd (transcribe rnd env self p))). is_faster_whisper c) \<longrightarrow>
      use_faster_whisper self \<and> (\<exists>m. model_path self = Some m \<and> m \<noteq> []))"
  using whisper_no_faster_calls [of rnd env self p]
  by (auto simp: transcribe_def truthy_def split: option.splits)

theorem transcribe_dispatch_witness:
  "use_faster_whisper (example_transcriber True None) \<and>
   model_path (example_transcriber True None) = None \<and>
   transcribe no_rounding example_backends (example_transcriber True None) example_path =
     transcribe_with_whisper no_rounding example_backends (example_transcriber True None)
       example_path \<and>
   (\<exists>c \<in> set (snd (snd (transcribe no_rounding example_backends
      (example_transcriber True (Some example_model)) example_path))). is_faster_whisper c) \<and>
   use_faster_whisper (example_transcriber True (Some example_model)) \<and>
   (\<exists>m. model_path (example_transcriber True (Some example_model)) = Some m \<and> m \<noteq> [])"
proof -
  have hyp: "use_faster_whisper (example_transcriber True None) \<and>
      model_path (example_transcriber True None) = None"
    by (simp add: example_transcriber_def init_AudioTranscriber_def)
  have "snd (snd (transcribe no_rounding example_backends
      (example_transcriber True (Some example_model)) example_path)) =
      [FasterWhisperLoad (Some example_model) Cpu (ascii ''float16''),
       FasterWhisperTranscribe example_path]"
    using example_model_nonempty
    by (simp add: transcribe_def transcribe_with_faster_whisper_def example_backends_def
        example_transcriber_def init_AudioTranscriber_def truthy_def)
  then have calls: "\<exists>c \<in> set (snd (snd (transcribe no_rounding example_backends
      (example_transcriber True (Some example_model)) example_path))). is_faster_whisper c"
    by simp
  from transcribe_dispatch [of "example_transcriber True None" no_rounding example_backends
      example_path] hyp
  have first: "transcribe no_rounding example_backends (example_transcriber True None)
      example_path = transcribe_with_whisper no_rounding example_backends
      (example_transcriber True None) example_path"
    by blast
  from transcribe_dispatch [of "example_transcriber True (Some example_model)" no_rounding
      example_backends example_path] calls
  have second: "use_faster_whisper (example_transcriber True (Some example_model)) \<and>
      (\<exists>m. model_path (example_transcriber True (Some example_model)) = Some m \<and> m \<noteq> [])"
    by blast
  from hyp first calls second show ?thesis by blast
qed







subsection \<open>Translation: sanitising the engine's answer\<close>

lemma space_not_allowed: "is_space c \<Longrightarrow> \<not> allowed_char c"
  by (auto simp: is_space_def allowed_char_def allowed_punct_def)

lemma filter_dropWhile_disjoint:
  "(\<And>c. Q c \<Longrightarrow> \<not> P c) \<Longrightarrow> filter P (dropWhile Q s) = filter P s"
  by (induction s) auto

lemma concat_findall_runs: "concat (findall_runs P s) = filter P s"
proof (induction P s rule: findall_runs.induct)
  case (1 P)
  then show ?case by simp
next
  case (2 P c cs)
  have "filter P cs = takeWhile P cs @ filter P (dropWhile P cs)"
    by (induction cs) auto
  with 2 show ?case by simp
qed

lemma filter_strip: "filter allowed_char (strip s) = filter allowed_char s"
proof -
  have "filter allowed_char (rev (dropWhile is_space (rev (dropWhile is_space s))))
        = rev (filter allowed_char (dropWhile is_space (rev (dropWhile is_space s))))"
    by (simp add: rev_filter)
  also have "\<dots> = rev (filter allowed_char (rev (dropWhile is_space s)))"
    by (simp add: filter_dropWhile_disjoint space_not_allowed)
  also have "\<dots> = filter allowed_char (dropWhile is_space s)"
    by (simp add: rev_filter)
  also have "\<dots> = filter allowed_char s"
    by (simp add: filter_dropWhile_disjoint space_not_allowed)
  finally show ?thesis by (simp add: strip_def)
qed

lemma dropWhile_none: "\<forall>c \<in> set s. \<not> Q c \<Longrightarrow> dropWhile Q s = s"
  by (cases s) auto

lemma strip_allowed:
  assumes "\<forall>c \<in> set s. allowed_char c"
  shows "strip s = s"
proof -
  from assms have "\<forall>c \<in> set s. \<not> is_space c"
    using space_not_allowed by blast
  then show ?thesis by (simp add: strip_def dropWhile_none)
qed

lemma sanitize_eq: "sanitize s = drop_final_punct (filter allowed_char s)"
proof -
  have "\<forall>c \<in> set (drop_final_punct (filter allowed_char s)). allowed_char c"
    by (auto simp: drop_final_punct_def dest: in_set_butlastD)
  then have "strip (drop_final_punct (filter allowed_char s)) =
      drop_final_punct (filter allowed_char s)"
    by (rule strip_allowed)
  moreover have "sanitize s = strip (drop_final_punct (filter allowed_char s))"
    unfolding sanitize_def Let_def concat_findall_runs filter_strip drop_final_punct_def ..
  ultimately show ?thesis by simp
qed

lemma sanitize_allowed: "\<forall>c \<in> set (sanitize s). allowed_char c"
  by (auto simp: sanitize_eq drop_final_punct_def dest: in_set_butlastD)

lemma sanitize_again: "sanitize (sanitize s) = drop_final_punct (sanitize s)"
proof -
  have "filter allowed_char (sanitize s) = sanitize s"
    using sanitize_allowed [of s] by (simp add: filter_id_conv)
  then show ?thesis using sanitize_eq [of "sanitize s"] by simp
qed

lemma butlast_neq: "t \<noteq> [] \<Longrightarrow> butlast t \<noteq> t"
  by (induction t) auto

text \<open>
  C5, as amended. Sanitising a sanitised string drops one more final punctuation
  character, if there is one: the sanitisation is idempotent on exactly the strings whose
  sanitised form is empty or does not end in a character of \<open>allowed_punct\<close>.
\<close>

theorem sanitize_idempotent_iff:
  "sanitize (sanitize s) = drop_final_punct (sanitize s) \<and>
   (sanitize (sanitize s) = sanitize s \<longleftrightarrow>
      sanitize s = [] \<or> last (sanitize s) \<notin> set allowed_punct)"
  using butlast_neq [of "sanitize s"]
  by (auto simp: sanitize_again drop_final_punct_def)

theorem sanitize_idempotent_iff_witness:
  "(sanitize [97, 12290] = [] \<or> last (sanitize [97, 12290]) \<notin> set allowed_punct) \<and>
   sanitize [97, 12290] = [97] \<and>
   sanitize (sanitize [97, 12290]) = sanitize [97, 12290]"
proof -
  have "sanitize [97, 12290] = [97]"
    by (simp add: sanitize_def strip_def is_space_def allowed_char_def allowed_punct_def)
  then show ?thesis
    using sanitize_idempotent_iff [of "[97, 12290]"]
    by (simp add: allowed_punct_def drop_final_punct_def)
qed

text \<open>
  The claim as stated fails: an answer ending in two full stops (U+3002) keeps one of
  them after the first pass and loses it in the second.
\<close>

theorem sanitize_not_idempotent:
  "sanitize [97, 12290, 12290] = [97, 12290] \<and> sanitize (sanitize [97, 12290, 12290]) = [97]"
  by (simp add: sanitize_def strip_def is_space_def allowed_char_def allowed_punct_def)

subsection \<open>Translation: the loop over the segments\<close>

lemma progress_values_0: "progress_values rnd tot i 0 = []"
  by (simp add: progress_values_def)

lemma progress_values_Suc:
  "progress_values rnd tot i (Suc n) =
     progress_percent rnd (Suc i) tot # progress_values rnd tot (Suc i) n"
  by (simp add: progress_values_def upt_conv_Cons del: upt_Suc)

lemma translate_with_ollama_calls:
  assumes "translate_with_ollama self run calls ctx txt = (r, calls')"
  shows "length calls' \<le> length calls + 1"
    and "r = Inr t \<Longrightarrow> length calls' = length calls + 1"
  using assms
  by (auto simp: translate_with_ollama_def Let_def split: if_splits completed.splits pyerr.splits)

lemma translate_with_ollama_blank:
  "txt = [] \<or> strip txt = [] \<Longrightarrow> translate_with_ollama self run calls ctx txt = (Inl ValueError, calls)"
  by (simp add: translate_with_ollama_def)

lemma translate_segment_Inr:
  assumes "translate_segment self run ctx seg calls = (Inr new, calls')"
  shows "translated_from seg new"
  using assms
  by (auto simp: translate_segment_def translated_from_def
      split: option.splits prod.splits sum.splits if_splits)

lemma translate_segment_calls:
  assumes "translate_segment self run ctx seg calls = (r, calls')"
  shows "length calls' \<le> length calls + 1"
  using assms translate_with_ollama_calls(1) [of self run calls ctx]
  by (auto simp: translate_segment_def split: option.splits prod.splits sum.splits if_splits)

lemma translate_segment_enabled_Inr_calls:
  assumes "translate_segment self run ctx seg calls = (Inr new, calls')"
    and "engine_enabled self"
  shows "length calls' = length calls + 1"
  using assms translate_with_ollama_calls(2) [of self run calls ctx]
  by (auto simp: translate_segment_def engine_enabled_def
      split: option.splits prod.splits sum.splits if_splits)

lemma translate_segment_blank:
  assumes "engine_enabled self" and "blank_text seg"
  shows "translate_segment self run ctx seg calls = (Inl ValueError, calls)"
  using assms
  by (auto simp: translate_segment_def engine_enabled_def blank_text_def
      translate_with_ollama_blank split: option.splits)

lemma translate_segment_disabled:
  assumes "\<not> engine_enabled self"
    and "seg_text seg = Some t" "seg_start seg = Some s" "seg_end seg = Some e"
  shows "translate_segment self run ctx seg calls =
    (Inr \<lparr>seg_start = Some s, seg_end = Some e, seg_text = None,
          seg_original = Some t, seg_translated = Some t\<rparr>, calls)"
  using assms by (auto simp: translate_segment_def engine_enabled_def)

lemma translate_loop_success:
  assumes "translate_loop rnd self run ctx tot i segs st = (None, st')"
  shows "\<exists>out. translated_segments st' = translated_segments st @ out \<and>
           list_all2 translated_from segs out \<and>
           progress st' = progress st @
             progress_values rnd tot i (length segs)"
  using assms
proof (induction segs arbitrary: i st)
  case Nil
  then show ?case by (simp add: progress_values_0)
next
  case (Cons seg rest)
  from Cons.prems obtain new calls' where
    step: "translate_segment self run ctx seg (engine_calls st) = (Inr new, calls')"
    and rec: "translate_loop rnd self run ctx tot (i + 1) rest
            \<lparr>translated_segments = translated_segments st @ [new],
             progress = progress st @ [progress_percent rnd (i + 1) tot],
             engine_calls = calls'\<rparr> = (None, st')"
    by (auto split: prod.splits sum.splits)
  from Cons.IH [OF rec] obtain out where
    out: "translated_segments st' = (translated_segments st @ [new]) @ out"
      "list_all2 translated_from rest out"
      "progress st' = (progress st @ [progress_percent rnd (i + 1) tot]) @
         progress_values rnd tot (i + 1) (length rest)"
    by auto
  with translate_segment_Inr [OF step] show ?case
    by (intro exI [of _ "new # out"]) (simp add: progress_values_Suc)
qed

lemma translate_loop_calls_success:
  assumes "translate_loop rnd self run ctx tot i segs st = (None, st')"
    and "engine_enabled self"
  shows "length (engine_calls st') = length (engine_calls st) + length segs"
  using assms(1)
proof (induction segs arbitrary: i st)
  case Nil
  then show ?case by (simp add: progress_values_0)
next
  case (Cons seg rest)
  from Cons.prems obtain new calls' where
    step: "translate_segment self run ctx seg (engine_calls st) = (Inr new, calls')"
    and rec: "translate_loop rnd self run ctx tot (i + 1) rest
            \<lparr>translated_segments = translated_segments st @ [new],
             progress = progress st @ [progress_percent rnd (i + 1) tot],
             engine_calls = calls'\<rparr> = (None, st')"
    by (auto split: prod.splits sum.splits)
  from Cons.IH [OF rec] translate_segment_enabled_Inr_calls [OF step assms(2)]
  show ?case by simp
qed

lemma translate_loop_disabled:
  assumes "\<not> engine_enabled self"
    and "\<forall>seg \<in> set segs. seg_text seg \<noteq> None \<and> seg_start seg \<noteq> None \<and> seg_end seg \<noteq> None"
  shows "translate_loop rnd self run ctx tot i segs st =
    (None, \<lparr>translated_segments = translated_segments st @
               map (\<lambda>seg. \<lparr>seg_start = seg_start seg, seg_end = seg_end seg, seg_text = None,
                           seg_original = seg_text seg, seg_translated = seg_text seg\<rparr>) segs,
            progress = progress st @
               progress_values rnd tot i (length segs),
            engine_calls = engine_calls st\<rparr>)"
  using assms(2)
proof (induction segs arbitrary: i st)
  case Nil
  then show ?case by (simp add: progress_values_0)
next
  case (Cons seg rest)
  from Cons.prems obtain t s e where
    f: "seg_text seg = Some t" "seg_start seg = Some s" "seg_end seg = Some e"
    by auto
  from Cons.prems have "\<forall>seg \<in> set rest. seg_text seg \<noteq> None \<and> seg_start seg \<noteq> None \<and> seg_end seg \<noteq> None"
    by simp
  from Cons.IH [OF this] show ?case
    by (simp add: translate_segment_disabled [OF assms(1) f] f progress_values_Suc)
qed

lemma translate_loop_blank:
  assumes en: "engine_enabled self"
  shows "k < length segs \<Longrightarrow> blank_text (segs ! k) \<Longrightarrow>
    translate_loop rnd self run ctx tot i segs st = (r, st') \<Longrightarrow>
    r \<noteq> None \<and>
    length (engine_calls st') \<le> length (engine_calls st) + k \<and>
    length (progress st') \<le> length (progress st) + k \<and>
    (length (progress st') = length (progress st) + k \<longrightarrow>
       r = Some (RuntimeError (Some ValueError)) \<and>
       length (engine_calls st') = length (engine_calls st) + k)"
proof (induction segs arbitrary: k i st)
  case Nil
  then show ?case by simp
next
  case (Cons seg rest)
  show ?case
  proof (cases k)
    case 0
    with Cons.prems have "blank_text seg" by simp
    from translate_segment_blank [OF en this] Cons.prems(3) 0
    show ?thesis by auto
  next
    case (Suc k')
    obtain res calls' where
      step: "translate_segment self run ctx seg (engine_calls st) = (res, calls')"
      by (cases "translate_segment self run ctx seg (engine_calls st)")
    show ?thesis
    proof (cases res)
      case (Inl e)
      with step Cons.prems(3) translate_segment_calls [OF step] Suc
      show ?thesis by auto
    next
      case (Inr new)
      let ?st = "\<lparr>translated_segments = translated_segments st @ [new],
             progress = progress st @ [progress_percent rnd (i + 1) tot],
             engine_calls = calls'\<rparr>"
      from Inr step Cons.prems(3)
      have rec: "translate_loop rnd self run ctx tot (i + 1) rest ?st = (r, st')"
        by simp
      from Cons.prems Suc have k': "k' < length rest" "blank_text (rest ! k')"
        by simp_all
      from step Inr have "length calls' = length (engine_calls st) + 1"
        using translate_segment_enabled_Inr_calls [OF _ en] by blast
      with Cons.IH [OF k' rec] Suc show ?thesis by simp
    qed
  qed
qed

lemma no_text_iff: "list_ex (\<lambda>seg. seg_text seg = None) segs \<longleftrightarrow> \<not> (\<forall>seg \<in> set segs. seg_text seg \<noteq> None)"
  by (auto simp: list_ex_iff)

text \<open>
  C4, as amended. With translation enabled and a segment of empty or blank text at index
  \<open>k\<close>, \<open>translate_segments\<close> fails; the engine has been invoked at most \<open>k\<close> times, once
  for each segment translated before, so never when \<open>k = 0\<close>. When every segment has a
  text and the \<open>k\<close> segments before were translated, the failure is the ValueError of
  \<^verbatim>\<open>translate_with_ollama\<close>, re-raised as a RuntimeError by the loop and once more by the
  outer handler, after exactly \<open>k\<close> invocations.
\<close>

theorem blank_segment_fails:
  assumes "engine_enabled self" and "k < length segs" and "blank_text (segs ! k)"
  shows "(\<exists>e. fst (translate_segments rnd self run segs) = Inl e) \<and>
     length (snd (snd (translate_segments rnd self run segs))) \<le> k \<and>
     length (fst (snd (translate_segments rnd self run segs))) \<le> k \<and>
     ((\<forall>seg \<in> set segs. seg_text seg \<noteq> None) \<and>
      length (fst (snd (translate_segments rnd self run segs))) = k \<longrightarrow>
        fst (translate_segments rnd self run segs) =
          Inl (RuntimeError (Some (RuntimeError (Some ValueError)))) \<and>
        length (snd (snd (translate_segments rnd self run segs))) = k)"
proof (cases "\<forall>seg \<in> set segs. seg_text seg \<noteq> None")
  case False
  with assms show ?thesis
    by (auto simp: translate_segments_def no_text_iff engine_enabled_def)
next
  case True
  let ?ctx = "context_prefix @ join (ascii ''\<newline>---\<newline>'') (map (\<lambda>seg. the (seg_text seg)) segs)"
  let ?st0 = "\<lparr>translated_segments = [], progress = [], engine_calls = []\<rparr>"
  obtain r st' where
    loop: "translate_loop rnd self run ?ctx (length segs) 0 segs ?st0 = (r, st')"
    by (cases "translate_loop rnd self run ?ctx (length segs) 0 segs ?st0")
  from translate_loop_blank [OF assms(1) assms(2) assms(3) loop]
  obtain e where r: "r = Some e"
    and b: "length (engine_calls st') \<le> k" "length (progress st') \<le> k"
      "length (progress st') = k \<longrightarrow> e = RuntimeError (Some ValueError) \<and>
         length (engine_calls st') = k"
    by auto
  from assms(2) have ne: "segs \<noteq> []" by auto
  have res: "translate_segments rnd self run segs =
      (Inl (RuntimeError (Some e)), progress st', engine_calls st')"
    using True ne loop r by (simp add: translate_segments_def no_text_iff Let_def)
  show ?thesis unfolding res using b by simp
qed

text \<open>
  On values: a successful \<open>translate_segments\<close> returns a list of the same length and
  order as its non-empty input, and each new segment is made from the segment at its index.
\<close>

lemma translate_segments_list_result:
  assumes "translate_segments rnd self run segs = (Inr out, ps, calls)"
  shows "segs \<noteq> [] \<and> length out = length segs \<and>
    (\<forall>i < length segs. translated_from (segs ! i) (out ! i))"
proof -
  let ?ctx = "context_prefix @ join (ascii ''\<newline>---\<newline>'') (map (\<lambda>seg. the (seg_text seg)) segs)"
  let ?st0 = "\<lparr>translated_segments = [], progress = [], engine_calls = []\<rparr>"
  from assms have ne: "segs \<noteq> []"
    by (auto simp: translate_segments_def split: if_splits)
  from assms obtain st' where
    loop: "translate_loop rnd self run ?ctx (length segs) 0 segs ?st0 = (None, st')"
    and out: "out = translated_segments st'"
    by (auto simp: translate_segments_def Let_def split: if_splits prod.splits option.splits)
  from translate_loop_success [OF loop] out
  have rel: "list_all2 translated_from segs out" by simp
  then have len: "length out = length segs"
    by (simp add: list_all2_lengthD)
  from rel have all: "\<forall>i < length segs. translated_from (segs ! i) (out ! i)"
    by (simp add: list_all2_conv_all_nth)
  with ne len show ?thesis by simp
qed

text \<open>
  C6, as amended. With translation disabled or no engine name, and a non-empty store whose
  segments have \<open>text\<close>, \<open>start\<close> and \<open>end\<close>, \<open>translate_segments\<close> succeeds without any
  engine invocation, and each new segment has both \<open>translated\<close> and \<open>original\<close> equal to
  the text of the segment at its index.
\<close>

theorem no_engine_translation:
  assumes "\<not> use_local_model self \<or> \<not> truthy (model_name self)"
    and "segs \<noteq> []"
    and "\<forall>seg \<in> set segs. seg_text seg \<noteq> None \<and> seg_start seg \<noteq> None \<and> seg_end seg \<noteq> None"
  shows "fst (translate_segments rnd self run segs) =
      Inr (map (\<lambda>seg. \<lparr>seg_start = seg_start seg, seg_end = seg_end seg, seg_text = None,
                        seg_original = seg_text seg, seg_translated = seg_text seg\<rparr>) segs) \<and>
    snd (snd (translate_segments rnd self run segs)) = []"
proof -
  from assms(1) have dis: "\<not> engine_enabled self"
    by (auto simp: engine_enabled_def)
  then have "\<not> (use_local_model self \<and> truthy (model_name self) \<and>
      list_ex (\<lambda>seg. seg_text seg = None) segs)"
    by (auto simp: engine_enabled_def)
  with assms(2) show ?thesis
    by (simp add: translate_segments_def Let_def translate_loop_disabled [OF dis assms(3)])
qed

lemma ascii_Hello: "ascii ''Hello'' = [72, 101, 108, 108, 111]"
  by (simp add: ascii_def)

lemma example_enabled: "engine_enabled example_translator"
  by (simp add: engine_enabled_def example_translator_def truthy_def ascii_def)

lemma translate_hello:
  "translate_segment example_translator example_engine ctx hello_segment calls =
    (Inr \<lparr>seg_start = Some 0, seg_end = Some (5 / 2), seg_text = None,
          seg_original = Some (ascii ''Hello''), seg_translated = Some [20320, 22909]\<rparr>,
     calls @ [[ascii ''ollama'', ascii ''run'', ascii ''gemma'',
               prompt_head @ ctx @ prompt_middle @ ascii ''Hello'']])"
proof -
  have s: "sanitize [20320, 22909] = [20320, 22909]"
    by (simp add: sanitize_def strip_def is_space_def allowed_char_def allowed_punct_def)
  have t: "strip [72, 101, 108, 108, 111] = [72, 101, 108, 108, 111]"
    by (simp add: strip_def is_space_def)
  have u: "strip [20320, 22909] = [20320, 22909]"
    by (simp add: strip_def is_space_def)
  have "truthy (model_name example_translator)"
    using example_enabled by (simp add: engine_enabled_def)
  then show ?thesis
    by (simp add: translate_segment_def translate_with_ollama_def hello_segment_def
        example_engine_def example_translator_def s t u ascii_Hello)
qed

lemma empty_text_blank: "blank_text empty_text_segment"
  by (simp add: blank_text_def empty_text_segment_def)

text \<open>
  C4 as stated fails: when the blank segment is the second one, the engine has been
  invoked for the first before the store fails.
\<close>

theorem blank_second_segment_after_engine_call:
  "blank_text ([hello_segment, empty_text_segment] ! 1) \<and>
   fst (translate_segments no_rounding example_translator example_engine
     [hello_segment, empty_text_segment]) =
     Inl (RuntimeError (Some (RuntimeError (Some ValueError)))) \<and>
   length (snd (snd (translate_segments no_rounding example_translator example_engine
     [hello_segment, empty_text_segment]))) = 1"
proof -
  have "seg_text hello_segment \<noteq> None" "seg_text empty_text_segment \<noteq> None"
    by (simp_all add: hello_segment_def empty_text_segment_def)
  then show ?thesis
    using empty_text_blank
    by (simp add: translate_segments_def translate_hello Let_def
        translate_segment_blank [OF example_enabled empty_text_blank])
qed

theorem blank_segment_fails_witness:
  "engine_enabled example_translator \<and> 0 < length [empty_text_segment] \<and>
   blank_text ([empty_text_segment] ! 0) \<and>
   fst (translate_segments no_rounding example_translator example_engine [empty_text_segment]) =
     Inl (RuntimeError (Some (RuntimeError (Some ValueError)))) \<and>
   snd (snd (translate_segments no_rounding example_translator example_engine
     [empty_text_segment])) = []"
proof -
  have h2: "0 < length [empty_text_segment]" by simp
  have h3: "blank_text ([empty_text_segment] ! 0)" using empty_text_blank by simp
  have "seg_text empty_text_segment \<noteq> None" by (simp add: empty_text_segment_def)
  with blank_segment_fails [OF example_enabled h2 h3, of no_rounding example_engine]
    example_enabled h3
  show ?thesis by simp
qed

text \<open>
  C6 as stated fails for the empty store: \<open>translate_segments\<close> refuses it with a
  ValueError, whether or not translation is enabled.
\<close>

theorem empty_store_refused:
  "translate_segments no_rounding disabled_translator example_engine [] =
     (Inl ValueError, [], [])"
  by (simp add: translate_segments_def)

theorem no_engine_translation_witness:
  "\<not> use_local_model disabled_translator \<and> [hello_segment] \<noteq> [] \<and>
   seg_text hello_segment \<noteq> None \<and> seg_start hello_segment \<noteq> None \<and>
   seg_end hello_segment \<noteq> None \<and>
   fst (translate_segments no_rounding disabled_translator example_engine [hello_segment]) =
     Inr [\<lparr>seg_start = Some 0, seg_end = Some (5 / 2), seg_text = None,
           seg_original = Some (ascii ''Hello''), seg_translated = Some (ascii ''Hello'')\<rparr>] \<and>
   snd (snd (translate_segments no_rounding disabled_translator example_engine
     [hello_segment])) = []"
proof -
  have h1: "\<not> use_local_model disabled_translator \<or> \<not> truthy (model_name disabled_translator)"
    by (simp add: disabled_translator_def)
  have h2: "[hello_segment] \<noteq> []" by simp
  have h3: "\<forall>seg \<in> set [hello_segment].
      seg_text seg \<noteq> None \<and> seg_start seg \<noteq> None \<and> seg_end seg \<noteq> None"
    by (simp add: hello_segment_def)
  have h0: "\<not> use_local_model disabled_translator"
    by (simp add: disabled_translator_def)
  have run: "fst (translate_segments no_rounding disabled_translator example_engine
      [hello_segment]) =
      Inr [\<lparr>seg_start = Some 0, seg_end = Some (5 / 2), seg_text = None,
            seg_original = Some (ascii ''Hello''), seg_translated = Some (ascii ''Hello'')\<rparr>] \<and>
    snd (snd (translate_segments no_rounding disabled_translator example_engine
      [hello_segment])) = []"
    using no_engine_translation [OF h1 h2 h3, of no_rounding example_engine]
    by (simp add: hello_segment_def)
  have fields: "seg_text hello_segment \<noteq> None \<and> seg_start hello_segment \<noteq> None \<and>
      seg_end hello_segment \<noteq> None"
    by (simp add: hello_segment_def)
  from h0 h2 fields run show ?thesis by blast
qed

subsection \<open>Writing the subtitle file\<close>

lemma spec_text_line_cases:
  assumes "spec_text_line use_tr seg = Some t"
  shows "(use_tr \<and> seg_translated seg \<noteq> None \<and> the (seg_translated seg) = t) \<or>
    (\<not> (use_tr \<and> seg_translated seg \<noteq> None) \<and> seg_original seg \<noteq> None \<and>
       the (seg_original seg) = t) \<or>
    (\<not> (use_tr \<and> seg_translated seg \<noteq> None) \<and> seg_original seg = None \<and>
       seg_text seg = Some t)"
  using assms by (auto simp: spec_text_line_def split: option.splits if_splits)

lemma write_block_srt_block:
  assumes "srt_block rnd use_tr i seg = Some b"
  shows "write_block rnd use_tr i seg f = (Inr (), f @ b)"
proof -
  from assms obtain stamp t where
    stamp: "time_line rnd seg = Some stamp"
    and t: "spec_text_line use_tr seg = Some t"
    and b: "b = str_nat (i + 1) @ [10] @ stamp @ [10] @ t @ [10] @ [10]"
    by (auto simp: srt_block_def split: option.splits)
  from stamp obtain s a e c where
    times: "seg_start seg = Some s" "format_time rnd s = Inr a"
      "seg_end seg = Some e" "format_time rnd e = Inr c"
    and st: "stamp = a @ ascii '' --> '' @ c"
    by (auto simp: time_line_def split: option.splits sum.splits)
  from spec_text_line_cases [OF t] show ?thesis
    by (elim disjE) (auto simp: write_block_def Let_def times st b)
qed

lemma write_blocks_srt_text:
  assumes "srt_text rnd use_tr i segs = Some content"
  shows "write_blocks rnd use_tr tot i segs f ps =
    (Inr (), f @ content, ps @ progress_values rnd tot i (length segs))"
  using assms
proof (induction segs arbitrary: i f ps content)
  case Nil
  then show ?case by (simp add: progress_values_0)
next
  case (Cons seg rest)
  from Cons.prems obtain b r where
    b: "srt_block rnd use_tr i seg = Some b"
    and r: "srt_text rnd use_tr (i + 1) rest = Some r"
    and content: "content = b @ r"
    by (auto split: option.splits)
  from Cons.IH [OF r] write_block_srt_block [OF b] content
  show ?case by (simp add: progress_values_Suc)
qed

lemma write_blocks_progress:
  assumes "write_blocks rnd use_tr tot i segs f ps = (Inr u, f', ps')"
  shows "ps' = ps @ progress_values rnd tot i (length segs)"
  using assms
proof (induction segs arbitrary: i f ps)
  case Nil
  then show ?case by (simp add: progress_values_0)
next
  case (Cons seg rest)
  from Cons.prems obtain v f1 where
    "write_blocks rnd use_tr tot (i + 1) rest f1 (ps @ [progress_percent rnd (i + 1) tot]) =
      (Inr u, f', ps')"
    by (auto split: prod.splits sum.splits)
  from Cons.IH [OF this] show ?case by (simp add: progress_values_Suc)
qed

text \<open>
  C7. When the file can be opened and every segment has its times and a text to show,
  \<open>generate_srt\<close> returns the path and writes, for each segment in order, the block
  \<open>srt_block\<close>: the number, the time range, one text line and a blank line. The text
  line is the one \<open>spec_text_line\<close> chooses: \<open>translated\<close> if translated output is
  requested and the field is present, else \<open>original\<close> if present (also when translated
  output was requested), else \<open>text\<close>.
\<close>

theorem generate_srt_text_lines:
  assumes "can_open sys (fst (splitext (path_seps sys) (output_path self)) @ ascii ''.srt'')"
    and "srt_text rnd (use_translation self) 0 (segments self) = Some content"
  shows "fst (generate_srt rnd sys fs self) =
      Inr (fst (splitext (path_seps sys) (output_path self)) @ ascii ''.srt'') \<and>
    fst (snd (generate_srt rnd sys fs self)) =
      fs(fst (splitext (path_seps sys) (output_path self)) @ ascii ''.srt'' \<mapsto> content)"
  using assms(1) write_blocks_srt_text [OF assms(2), of "length (segments self)" "[]" "[]"]
  by (simp add: generate_srt_def Let_def)

lemma format_time_0:
  assumes "float_rounding rnd"
  shows "format_time rnd 0 = Inr (ascii ''00:00:00,000'')"
  using float_rounding_0 [OF assms]
  by (simp add: format_time_def timedelta_of_seconds_def py_int_def format_0d_def ascii_def
      replicate_numeral)

lemma format_time_2500:
  assumes "float_rounding rnd"
  shows "format_time rnd (5 / 2) = Inr (ascii ''00:00:02,500'')"
proof -
  have f: "\<lfloor>5 / 2 :: rat\<rfloor> = 2" by (simp add: floor_eq_iff)
  have td: "timedelta_of_seconds rnd (5 / 2) =
      Inr \<lparr>days = 0, seconds = 2, microseconds = 500000\<rparr>"
    using float_rounding_500000 [OF assms]
    by (simp add: timedelta_of_seconds_def py_int_def f round_half_even_def Let_def)
  show ?thesis
    using float_rounding_500 [OF assms]
    by (simp add: format_time_def td py_int_def format_0d_def ascii_def replicate_numeral)
qed

lemma progress_percent_one:
  assumes "float_rounding rnd"
  shows "progress_percent rnd (Suc 0) (Suc 0) = 100"
  using float_rounding_1 [OF assms] float_rounding_100 [OF assms]
  by (simp add: progress_percent_def py_int_def)

lemma write_block_hello:
  assumes "float_rounding rnd"
  shows "write_block rnd use_tr 0 hello_segment [] =
    (Inr (), text_of_lines [ascii ''1'', ascii ''00:00:00,000 --> 00:00:02,500'',
        ascii ''Hello'', []])"
  by (simp add: write_block_def hello_segment_def format_time_0 [OF assms]
      format_time_2500 [OF assms] text_of_lines_def ascii_def)

text \<open>
  C8. For the store \<^verbatim>\<open>[{"start": 0.0, "end": 2.5, "text": "Hello"}]\<close>, whatever the
  use-translation flag, \<open>generate_srt\<close> writes the four lines \<open>1\<close>,
  \<open>00:00:00,000 --> 00:00:02,500\<close>, \<open>Hello\<close> and an empty one to the output path with its
  extension replaced by \<open>.srt\<close>, returns that path and reports the progress 100.
\<close>

theorem generate_srt_hello:
  assumes "float_rounding rnd"
    and "can_open sys (fst (splitext (path_seps sys) out) @ ascii ''.srt'')"
  shows "generate_srt rnd sys fs
      \<lparr>segments = [hello_segment], output_path = out, use_translation = use_tr\<rparr> =
    (Inr (fst (splitext (path_seps sys) out) @ ascii ''.srt''),
     fs(fst (splitext (path_seps sys) out) @ ascii ''.srt'' \<mapsto>
        text_of_lines [ascii ''1'', ascii ''00:00:00,000 --> 00:00:02,500'', ascii ''Hello'', []]),
     [100])"
  using assms(2)
  by (simp add: generate_srt_def Let_def write_block_hello [OF assms(1)]
      progress_percent_one [OF assms(1)])

lemma splitext_movie:
  "fst (splitext [47] (ascii ''out/movie.mp4'')) @ ascii ''.srt'' = ascii ''out/movie.srt''"
  by (simp add: splitext_def rfind_def ascii_def upt_rec)

theorem generate_srt_hello_witness:
  "float_rounding no_rounding \<and> can_open posix (ascii ''out/movie.srt'') \<and>
   generate_srt no_rounding posix Map.empty
     \<lparr>segments = [hello_segment], output_path = ascii ''out/movie.mp4'',
      use_translation = False\<rparr> =
   (Inr (ascii ''out/movie.srt''),
    [ascii ''out/movie.srt'' \<mapsto>
       text_of_lines [ascii ''1'', ascii ''00:00:00,000 --> 00:00:02,500'', ascii ''Hello'', []]],
    [100])"
proof -
  have sep: "path_seps posix = [47]" by (simp add: posix_def)
  have op: "can_open posix (fst (splitext (path_seps posix) (ascii ''out/movie.mp4'')) @
      ascii ''.srt'')"
    by (simp add: posix_def)
  have "can_open posix (ascii ''out/movie.srt'')" by (simp add: posix_def)
  with generate_srt_hello [OF float_rounding_no_rounding op, of Map.empty False]
    float_rounding_no_rounding
  show ?thesis by (simp only: sep splitext_movie simp_thms)
qed

lemma srt_text_translated_hello:
  "srt_text no_rounding use_tr 0 [translated_hello_segment] =
     Some (text_of_lines [ascii ''1'', ascii ''00:00:00,000 --> 00:00:02,500'',
       if use_tr then [20320, 22909] else ascii ''Hello'', []])"
  by (simp add: srt_block_def time_line_def spec_text_line_def translated_hello_segment_def
      format_time_0 [OF float_rounding_no_rounding]
      format_time_2500 [OF float_rounding_no_rounding] text_of_lines_def ascii_def)

theorem generate_srt_text_lines_witness:
  "can_open posix (ascii ''out/movie.srt'') \<and>
   srt_text no_rounding True 0 [translated_hello_segment] =
     Some (text_of_lines [ascii ''1'', ascii ''00:00:00,000 --> 00:00:02,500'',
       [20320, 22909], []]) \<and>
   srt_text no_rounding False 0 [translated_hello_segment] =
     Some (text_of_lines [ascii ''1'', ascii ''00:00:00,000 --> 00:00:02,500'',
       ascii ''Hello'', []]) \<and>
   fst (snd (generate_srt no_rounding posix Map.empty
     \<lparr>segments = [translated_hello_segment], output_path = ascii ''out/movie.mp4'',
      use_translation = True\<rparr>)) =
     [ascii ''out/movie.srt'' \<mapsto>
        text_of_lines [ascii ''1'', ascii ''00:00:00,000 --> 00:00:02,500'',
          [20320, 22909], []]] \<and>
   fst (snd (generate_srt no_rounding posix Map.empty
     \<lparr>segments = [translated_hello_segment], output_path = ascii ''out/movie.mp4'',
      use_translation = False\<rparr>)) =
     [ascii ''out/movie.srt'' \<mapsto>
        text_of_lines [ascii ''1'', ascii ''00:00:00,000 --> 00:00:02,500'',
          ascii ''Hello'', []]]"
proof -
  let ?g = "\<lambda>b. \<lparr>segments = [translated_hello_segment], output_path = ascii ''out/movie.mp4'',
      use_translation = b\<rparr>"
  let ?path = "fst (splitext (path_seps posix) (ascii ''out/movie.mp4'')) @ ascii ''.srt''"
  have p: "?path = ascii ''out/movie.srt''"
    using splitext_movie by (simp only: posix_def os.select_convs)
  have op: "can_open posix (ascii ''out/movie.srt'')" by (simp add: posix_def)
  have t: "srt_text no_rounding True 0 [translated_hello_segment] =
     Some (text_of_lines [ascii ''1'', ascii ''00:00:00,000 --> 00:00:02,500'',
       [20320, 22909], []])"
    using srt_text_translated_hello [of True] by (simp only: if_True)
  have f: "srt_text no_rounding False 0 [translated_hello_segment] =
     Some (text_of_lines [ascii ''1'', ascii ''00:00:00,000 --> 00:00:02,500'',
       ascii ''Hello'', []])"
    using srt_text_translated_hello [of False] by (simp only: if_False)
  have op': "can_open posix (fst (splitext (path_seps posix) (output_path (?g b))) @
      ascii ''.srt'')" for b
    using op by (simp only: SubtitleGenerator.select_convs p)
  have t': "srt_text no_rounding (use_translation (?g True)) 0 (segments (?g True)) =
     Some (text_of_lines [ascii ''1'', ascii ''00:00:00,000 --> 00:00:02,500'',
       [20320, 22909], []])"
    using t by (simp only: SubtitleGenerator.select_convs)
  have f': "srt_text no_rounding (use_translation (?g False)) 0 (segments (?g False)) =
     Some (text_of_lines [ascii ''1'', ascii ''00:00:00,000 --> 00:00:02,500'',
       ascii ''Hello'', []])"
    using f by (simp only: SubtitleGenerator.select_convs)
  have a: "fst (snd (generate_srt no_rounding posix Map.empty (?g True))) =
     [ascii ''out/movie.srt'' \<mapsto>
        text_of_lines [ascii ''1'', ascii ''00:00:00,000 --> 00:00:02,500'',
          [20320, 22909], []]]"
    using generate_srt_text_lines [OF op' t', of Map.empty]
    by (simp only: SubtitleGenerator.select_convs p)
  have b: "fst (snd (generate_srt no_rounding posix Map.empty (?g False))) =
     [ascii ''out/movie.srt'' \<mapsto>
        text_of_lines [ascii ''1'', ascii ''00:00:00,000 --> 00:00:02,500'',
          ascii ''Hello'', []]]"
    using generate_srt_text_lines [OF op' f', of Map.empty]
    by (simp only: SubtitleGenerator.select_convs p)
  from op t f a b show ?thesis by (intro conjI)
qed

subsection \<open>Progress reports\<close>

lemma ratio_bounds:
  assumes fr: "float_rounding rnd" and "k \<le> n" "0 < n"
  shows "0 \<le> rnd (of_nat k / of_nat n)" "rnd (of_nat k / of_nat n) \<le> 1"
proof -
  have "(0::rat) \<le> of_nat k / of_nat n" by simp
  from float_rounding_mono [OF fr this] show "0 \<le> rnd (of_nat k / of_nat n)"
    by (simp add: float_rounding_0 [OF fr])
  have "(of_nat k / of_nat n :: rat) \<le> 1" using assms by simp
  from float_rounding_mono [OF fr this] show "rnd (of_nat k / of_nat n) \<le> 1"
    by (simp add: float_rounding_1 [OF fr])
qed

lemma scaled_bounds:
  assumes fr: "float_rounding rnd" and "k \<le> n" "0 < n"
  shows "0 \<le> rnd (rnd (of_nat k / of_nat n) * 100)"
    "rnd (rnd (of_nat k / of_nat n) * 100) \<le> 100"
proof -
  let ?q = "rnd (of_nat k / of_nat n)"
  have q: "0 \<le> ?q" "?q \<le> 1" using ratio_bounds [OF assms] by auto
  then have "0 \<le> ?q * 100" by simp
  from float_rounding_mono [OF fr this] show "0 \<le> rnd (?q * 100)"
    by (simp add: float_rounding_0 [OF fr])
  have "?q * 100 \<le> 100" using q by simp
  from float_rounding_mono [OF fr this] show "rnd (?q * 100) \<le> 100"
    by (simp add: float_rounding_100 [OF fr])
qed

lemma progress_percent_range:
  assumes "float_rounding rnd" "k \<le> n" "0 < n"
  shows "0 \<le> progress_percent rnd k n \<and> progress_percent rnd k n \<le> 100"
proof -
  let ?w = "rnd (rnd (of_nat k / of_nat n) * 100)"
  have w: "0 \<le> ?w" "?w \<le> 100" using scaled_bounds [OF assms] by auto
  then have "\<lfloor>?w\<rfloor> \<le> \<lfloor>100 :: rat\<rfloor>" by (intro floor_mono)
  with w show ?thesis by (simp add: progress_percent_def py_int_def)
qed

lemma progress_percent_mono:
  assumes fr: "float_rounding rnd" and "j \<le> k" "k \<le> n" "0 < n"
  shows "progress_percent rnd j n \<le> progress_percent rnd k n"
proof -
  have "(of_nat j / of_nat n :: rat) \<le> of_nat k / of_nat n"
    using assms by (simp add: divide_right_mono)
  then have "rnd (of_nat j / of_nat n) * 100 \<le> rnd (of_nat k / of_nat n) * 100"
    using float_rounding_mono [OF fr] by simp
  then have "rnd (rnd (of_nat j / of_nat n) * 100) \<le> rnd (rnd (of_nat k / of_nat n) * 100)"
    by (rule float_rounding_mono [OF fr])
  moreover have "0 \<le> rnd (rnd (of_nat j / of_nat n) * 100)"
    using scaled_bounds(1) [OF fr, of j n] assms by simp
  ultimately show ?thesis
    by (simp add: progress_percent_def py_int_def floor_mono)
qed

lemma progress_percent_full:
  assumes fr: "float_rounding rnd" and "0 < n"
  shows "progress_percent rnd n n = 100"
  using assms by (simp add: progress_percent_def py_int_def float_rounding_1 float_rounding_100)

lemma shrink: "0 < u \<Longrightarrow> (1 - 2 * u) * ((1 + u) * (1 + u)) < (1::rat)"
proof -
  assume u: "0 < u"
  have "(1 - 2 * u) * ((1 + u) * (1 + u)) = 1 - (3 * (u * u) + 2 * (u * u * u))"
    by (simp add: algebra_simps)
  moreover have "0 < 3 * (u * u) + 2 * (u * u * u)" using u by (simp add: add_pos_pos)
  ultimately show ?thesis by simp
qed

lemma two_roundings_below:
  fixes x y w u :: rat
  assumes u: "0 < u" and x: "0 \<le> x" "x < 1 - 2 * u"
    and y: "y \<le> x + x * u" and w: "w \<le> y * 100 + y * 100 * u"
  shows "w < 100"
proof -
  have pos: "0 < 1 + u" using u by simp
  have "y \<le> x * (1 + u)" using y by (simp add: algebra_simps)
  then have "y * (1 + u) \<le> x * (1 + u) * (1 + u)"
    using pos by (simp add: mult_right_mono)
  moreover have "x * ((1 + u) * (1 + u)) \<le> (1 - 2 * u) * ((1 + u) * (1 + u))"
    using x pos by (intro mult_right_mono) simp_all
  ultimately have "y * (1 + u) < 1"
    using shrink [OF u] by (simp add: mult.assoc)
  then have "y * (1 + u) * 100 < 100" by simp
  moreover have "w \<le> y * (1 + u) * 100" using w by (simp add: algebra_simps)
  ultimately show ?thesis by simp
qed

lemma small_ratio:
  fixes k n :: nat
  assumes "k < n" "n < 2 ^ 52"
  shows "(of_nat k / of_nat n :: rat) < 1 - 2 * (1 / 2 ^ 53)"
proof -
  have n: "(0::rat) < of_nat n" using assms by simp
  have "(of_nat n :: rat) < of_nat (2 ^ 52)" using assms(2) by (simp only: of_nat_less_iff)
  then have nb: "(of_nat n :: rat) < 2 ^ 52" by simp
  have "Suc k \<le> n" using assms by simp
  then have "(of_nat (Suc k) :: rat) \<le> of_nat n" by (simp only: of_nat_le_iff)
  then have "(of_nat k :: rat) \<le> of_nat n - 1" by simp
  then have "(of_nat k / of_nat n :: rat) \<le> (of_nat n - 1) / of_nat n"
    using n by (simp add: divide_right_mono)
  also have "\<dots> = 1 - 1 / of_nat n" using n by (simp add: field_simps)
  also have "\<dots> < 1 - 1 / 2 ^ 52"
    using n nb by (simp add: field_simps)
  finally show ?thesis by simp
qed

lemma ratio_not_tiny:
  fixes k n :: nat
  assumes "0 < k" "n < 2 ^ 52" "0 < n"
  shows "(1 / 2 ^ 52 :: rat) \<le> of_nat k / of_nat n"
proof -
  have n: "(0::rat) < of_nat n" using assms by simp
  have "(of_nat n :: rat) < of_nat (2 ^ 52)" using assms(2) by (simp only: of_nat_less_iff)
  then have nb: "(of_nat n :: rat) < 2 ^ 52" by simp
  have "(1::rat) \<le> of_nat k" using assms(1) by simp
  then have a: "(1 / of_nat n :: rat) \<le> of_nat k / of_nat n"
    using n by (simp add: divide_right_mono)
  have b: "(1 / 2 ^ 52 :: rat) \<le> 1 / of_nat n"
    using n nb by (simp add: field_simps)
  from b a show ?thesis by (rule order_trans)
qed

lemma rel_error_bounds:
  fixes a b c :: rat
  assumes "\<bar>a - b\<bar> \<le> b / c"
  shows "a \<le> b + b * (1 / c)" and "b - b / c \<le> a"
  using assms by (simp_all add: abs_le_iff algebra_simps)

lemma progress_percent_below_100:
  assumes fr: "float_rounding rnd" and kn: "k < n" and nb: "n < 2 ^ 52"
  shows "progress_percent rnd k n < 100"
proof (cases "k = 0")
  case True
  then show ?thesis
    by (simp add: progress_percent_def py_int_def float_rounding_0 [OF fr])
next
  case False
  let ?x = "of_nat k / of_nat n :: rat"
  let ?y = "rnd ?x"
  let ?w = "rnd (?y * 100)"
  from kn have n: "0 < n" by simp
  from False have k: "0 < k" by simp
  have xlow: "1 / 2 ^ 52 \<le> ?x" by (rule ratio_not_tiny [OF k nb n])
  have xup: "?x < 1 - 2 * (1 / 2 ^ 53)" by (rule small_ratio [OF kn nb])
  have x0: "0 \<le> ?x" by simp
  have "1 / 2 ^ 64 \<le> ?x" using xlow by (rule order_trans [rotated]) simp
  moreover have "?x \<le> 2 ^ 64"
  proof -
    have "?x \<le> 1" using kn by simp
    then show ?thesis by (rule order_trans) simp
  qed
  ultimately have ex: "\<bar>?y - ?x\<bar> \<le> ?x / 2 ^ 53"
    by (rule float_rounding_error [OF fr])
  then have y: "?y \<le> ?x + ?x * (1 / 2 ^ 53)" by (rule rel_error_bounds(1))
  from ex have ylow: "?x - ?x / 2 ^ 53 \<le> ?y" by (rule rel_error_bounds(2))
  have "1 / 2 ^ 53 \<le> ?x - ?x / 2 ^ 53" using xlow by simp
  with ylow have ypos: "1 / 2 ^ 53 \<le> ?y" by simp
  have y1: "?y \<le> 1" using ratio_bounds(2) [OF fr, of k n] kn by simp
  have "1 / 2 ^ 64 \<le> ?y * 100" using ypos by simp
  moreover have "?y * 100 \<le> 2 ^ 64" using y1 by simp
  ultimately have "\<bar>?w - ?y * 100\<bar> \<le> ?y * 100 / 2 ^ 53"
    by (rule float_rounding_error [OF fr])
  then have w: "?w \<le> ?y * 100 + ?y * 100 * (1 / 2 ^ 53)" by (rule rel_error_bounds(1))
  have "?w < 100"
    by (rule two_roundings_below [OF _ x0 xup y w]) simp
  moreover have "0 \<le> ?w" using scaled_bounds(1) [OF fr, of k n] kn by simp
  ultimately show ?thesis
    by (simp add: progress_percent_def py_int_def floor_less_iff)
qed

lemma progress_values_ok:
  assumes fr: "float_rounding rnd" and n: "0 < n"
  shows "length (progress_values rnd n 0 n) = n \<and> progress_ok (progress_values rnd n 0 n) \<and>
    (n < 2 ^ 52 \<longrightarrow> (\<forall>v \<in> set (butlast (progress_values rnd n 0 n)). v < 100))"
proof -
  let ?f = "\<lambda>k. progress_percent rnd k n"
  have pv: "progress_values rnd n 0 n = map ?f [Suc 0..<Suc n]"
    by (simp add: progress_values_def)
  have ne: "[Suc 0..<Suc n] \<noteq> []" using n by simp
  have range: "\<forall>v \<in> set (map ?f [Suc 0..<Suc n]). 0 \<le> v \<and> v \<le> 100"
    using progress_percent_range [OF fr _ n] by auto
  have "sorted_wrt (\<lambda>j k. ?f j \<le> ?f k) [Suc 0..<Suc n]"
  proof (rule sorted_wrt_mono_rel [OF _ sorted_wrt_upt])
    fix j k
    assume "j \<in> set [Suc 0..<Suc n]" "k \<in> set [Suc 0..<Suc n]" "j < k"
    then have "j \<le> k" "k \<le> n" by auto
    then show "?f j \<le> ?f k" by (rule progress_percent_mono [OF fr _ _ n])
  qed
  then have sorted: "sorted (map ?f [Suc 0..<Suc n])"
    by (simp add: sorted_wrt_map)
  have split: "map ?f [Suc 0..<Suc n] = map ?f [Suc 0..<n] @ [?f n]"
    using n by simp
  have last: "last (map ?f [Suc 0..<Suc n]) = 100"
    unfolding split by (simp add: progress_percent_full [OF fr n])
  have "butlast (map ?f [Suc 0..<Suc n]) = map ?f [Suc 0..<n]"
    unfolding split by simp
  then have strict: "n < 2 ^ 52 \<longrightarrow> (\<forall>v \<in> set (butlast (map ?f [Suc 0..<Suc n])). v < 100)"
    using progress_percent_below_100 [OF fr] by auto
  from ne range sorted last strict show ?thesis
    unfolding pv progress_ok_def by simp
qed

lemma whisper_loop_eq:
  "whisper_loop rnd tot i raws segs ps =
     (segs @ map segment_of_raw raws, ps @ progress_values rnd tot i (length raws))"
  by (induction raws arbitrary: i segs ps) (simp_all add: progress_values_0 progress_values_Suc)

lemma faster_loop_progress:
  assumes "faster_loop rnd d items res ps = (None, res', ps')"
  shows "res' = res @ map segment_of_raw items \<and>
    ps' = ps @ map (\<lambda>r. py_int (rnd (rnd (raw_end r / d) * 100))) items"
  using assms
proof (induction items arbitrary: res ps)
  case Nil
  then show ?case by simp
next
  case (Cons r rest)
  from Cons.prems have "faster_loop rnd d rest (res @ [segment_of_raw r])
      (ps @ [py_int (rnd (rnd (raw_end r / d) * 100))]) = (None, res', ps')"
    by (simp split: if_splits)
  from Cons.IH [OF this] show ?case by simp
qed

text \<open>
  The stages that count segments. In a successful run of the reference transcription
  backend on a non-empty result, of the translation, and of the subtitle writer on a
  non-empty store, one progress value is delivered after each segment is appended or
  written; the values lie in \<open>[0, 100]\<close>, never decrease and end with 100, and (below
  \<open>2^52\<close> segments) no value before the last is 100. The faster-whisper backend delivers
  \<^verbatim>\<open>int(segment.end / total_duration * 100)\<close> for each segment.
\<close>

lemma count_based_progress:
  assumes fr: "float_rounding rnd"
  shows
    "(transcribe_with_whisper rnd env tr audio = (Inr segs, psa, calls) \<longrightarrow> segs \<noteq> [] \<longrightarrow>
        length psa = length segs \<and> progress_ok psa \<and>
        (length segs < 2 ^ 52 \<longrightarrow> (\<forall>v \<in> set (butlast psa). v < 100))) \<and>
     (translate_segments rnd self run store = (Inr out, psb, cmds) \<longrightarrow>
        length psb = length store \<and> progress_ok psb \<and>
        (length store < 2 ^ 52 \<longrightarrow> (\<forall>v \<in> set (butlast psb). v < 100))) \<and>
     (generate_srt rnd sys fs gen = (Inr path, fs', psc) \<longrightarrow> segments gen \<noteq> [] \<longrightarrow>
        length psc = length (segments gen) \<and> progress_ok psc \<and>
        (length (segments gen) < 2 ^ 52 \<longrightarrow> (\<forall>v \<in> set (butlast psc). v < 100))) \<and>
     (transcribe_with_faster_whisper rnd env' tr' audio' = (Inr segs', psd, calls') \<longrightarrow>
        faster_transcribe env' audio' = Inr (items, raised, duration) \<longrightarrow>
        psd = map (\<lambda>r. py_int (rnd (rnd (raw_end r / duration) * 100))) items)"
proof (intro conjI impI)
  assume run: "transcribe_with_whisper rnd env tr audio = (Inr segs, psa, calls)"
    and ne: "segs \<noteq> []"
  from run obtain result where
    "segs = map segment_of_raw result"
    "psa = progress_values rnd (length result) 0 (length result)"
    by (auto simp: transcribe_with_whisper_def Let_def whisper_loop_eq
        split: if_splits option.splits sum.splits)
  with ne have "0 < length segs" "psa = progress_values rnd (length segs) 0 (length segs)"
    by simp_all
  with progress_values_ok [OF fr, of "length segs"]
  show "length psa = length segs" "progress_ok psa"
    "length segs < 2 ^ 52 \<Longrightarrow> \<forall>v \<in> set (butlast psa). v < 100"
    by simp_all
next
  assume run: "translate_segments rnd self run store = (Inr out, psb, cmds)"
  let ?ctx = "context_prefix @
    join (ascii ''\<newline>---\<newline>'') (map (\<lambda>seg. the (seg_text seg)) store)"
  from run have ne: "store \<noteq> []"
    by (auto simp: translate_segments_def split: if_splits)
  from run obtain st' where
    loop: "translate_loop rnd self run ?ctx (length store) 0 store
      \<lparr>translated_segments = [], progress = [], engine_calls = []\<rparr> = (None, st')"
    and "psb = progress st'"
    by (auto simp: translate_segments_def Let_def split: if_splits prod.splits option.splits)
  with translate_loop_success [OF loop] ne
  have "0 < length store" "psb = progress_values rnd (length store) 0 (length store)"
    by simp_all
  with progress_values_ok [OF fr, of "length store"]
  show "length psb = length store" "progress_ok psb"
    "length store < 2 ^ 52 \<Longrightarrow> \<forall>v \<in> set (butlast psb). v < 100"
    by simp_all
next
  assume run: "generate_srt rnd sys fs gen = (Inr path, fs', psc)"
    and ne: "segments gen \<noteq> []"
  from run obtain u f where
    "write_blocks rnd (use_translation gen) (length (segments gen)) 0 (segments gen) [] [] =
      (Inr u, f, psc)"
    by (auto simp: generate_srt_def Let_def split: if_splits prod.splits sum.splits)
  from write_blocks_progress [OF this] ne
  have "0 < length (segments gen)"
    "psc = progress_values rnd (length (segments gen)) 0 (length (segments gen))"
    by simp_all
  with progress_values_ok [OF fr, of "length (segments gen)"]
  show "length psc = length (segments gen)" "progress_ok psc"
    "length (segments gen) < 2 ^ 52 \<Longrightarrow> \<forall>v \<in> set (butlast psc). v < 100"
    by simp_all
next
  assume run: "transcribe_with_faster_whisper rnd env' tr' audio' = (Inr segs', psd, calls')"
    and tr: "faster_transcribe env' audio' = Inr (items, raised, duration)"
  from run tr obtain res where
    "faster_loop rnd duration items [] [] = (None, res, psd)"
    by (auto simp: transcribe_with_faster_whisper_def Let_def
        split: if_splits option.splits prod.splits)
  from faster_loop_progress [OF this]
  show "psd = map (\<lambda>r. py_int (rnd (rnd (raw_end r / duration) * 100))) items"
    by simp
qed

lemma progress_percent_half: "progress_percent no_rounding (Suc 0) (Suc (Suc 0)) = 50"
  by (simp add: progress_percent_def no_rounding_def py_int_def)

lemma progress_percent_two: "progress_percent no_rounding (Suc (Suc 0)) (Suc (Suc 0)) = 100"
  by (simp add: progress_percent_def no_rounding_def py_int_def)

lemma whisper_two_segment_run:
  "transcribe_with_whisper no_rounding two_segment_backends (example_transcriber False None)
     example_path =
   (Inr [segment_of_raw \<lparr>raw_start = 0, raw_end = 5 / 2, raw_text = ascii '' Hello''\<rparr>,
         segment_of_raw \<lparr>raw_start = 5 / 2, raw_end = 4, raw_text = ascii '' World''\<rparr>],
    [50, 100], [WhisperLoad Cpu, WhisperTranscribe example_path False])"
  by (simp add: transcribe_with_whisper_def two_segment_backends_def example_backends_def
      example_transcriber_def init_AudioTranscriber_def progress_percent_half
      progress_percent_two)

lemma translate_two_segment_run:
  "translate_segments no_rounding disabled_translator example_engine
     [hello_segment, world_segment] =
   (Inr [\<lparr>seg_start = Some 0, seg_end = Some (5 / 2), seg_text = None,
          seg_original = Some (ascii ''Hello''), seg_translated = Some (ascii ''Hello'')\<rparr>,
         \<lparr>seg_start = Some (5 / 2), seg_end = Some 4, seg_text = None,
          seg_original = Some (ascii ''World''), seg_translated = Some (ascii ''World'')\<rparr>],
    [50, 100], [])"
proof -
  have dis: "\<not> engine_enabled disabled_translator"
    by (simp add: engine_enabled_def disabled_translator_def)
  have f: "seg_text hello_segment = Some (ascii ''Hello'')" "seg_start hello_segment = Some 0"
    "seg_end hello_segment = Some (5 / 2)"
    by (simp_all add: hello_segment_def)
  have g: "seg_text world_segment = Some (ascii ''World'')"
    "seg_start world_segment = Some (5 / 2)" "seg_end world_segment = Some 4"
    by (simp_all add: world_segment_def)
  have "\<not> use_local_model disabled_translator" by (simp add: disabled_translator_def)
  then show ?thesis
    by (simp add: translate_segments_def Let_def translate_segment_disabled [OF dis f]
        translate_segment_disabled [OF dis g] progress_percent_half progress_percent_two)
qed

lemma count_based_progress_example:
  "progress_ok [50, 100] \<and> (\<forall>v \<in> set (butlast [50, 100 :: int]). v < 100)"
proof -
  note inst = count_based_progress [OF float_rounding_no_rounding,
      where env = two_segment_backends and tr = "example_transcriber False None"
        and audio = example_path and psa = "[50, 100]"
        and self = disabled_translator and run = example_engine
        and store = "[hello_segment, world_segment]" and psb = "[50, 100]" and cmds = "[]"]
  from inst whisper_two_segment_run have "progress_ok [50, 100]" by blast
  moreover from inst translate_two_segment_run
  have "\<forall>v \<in> set (butlast [50, 100 :: int]). v < 100" by simp
  ultimately show ?thesis by blast
qed

lemma faster_example_run:
  "transcribe_with_faster_whisper no_rounding example_backends
     (example_transcriber True (Some example_model)) example_path =
   (Inr [segment_of_raw \<lparr>raw_start = 0, raw_end = 5, raw_text = ascii '' Hello''\<rparr>],
    [50],
    [FasterWhisperLoad (Some example_model) Cpu (ascii ''float16''),
     FasterWhisperTranscribe example_path])"
  by (simp add: transcribe_with_faster_whisper_def example_backends_def example_transcriber_def
      init_AudioTranscriber_def no_rounding_def py_int_def)

lemma faster_late_run:
  "transcribe_with_faster_whisper no_rounding late_backends
     (example_transcriber True (Some example_model)) example_path =
   (Inr [segment_of_raw \<lparr>raw_start = 0, raw_end = 20, raw_text = ascii '' Hello''\<rparr>],
    [200],
    [FasterWhisperLoad (Some example_model) Cpu (ascii ''float16''),
     FasterWhisperTranscribe example_path])"
  by (simp add: transcribe_with_faster_whisper_def late_backends_def example_backends_def
      example_transcriber_def init_AudioTranscriber_def no_rounding_def py_int_def)

lemma faster_selected:
  "use_faster_whisper (example_transcriber True (Some example_model)) \<and>
   truthy (model_path (example_transcriber True (Some example_model)))"
  using example_model_nonempty
  by (simp add: example_transcriber_def init_AudioTranscriber_def truthy_def)

text \<open>
  C3. The progress values of a stage should lie in \<open>[0, 100]\<close>, never decrease and end
  with 100; the stages that count segments do so (above). The faster-whisper backend
  does not: it reports \<^verbatim>\<open>int(segment.end / total_duration * 100)\<close> as it is and nothing
  after the last segment. With one segment ending at 5 seconds of an audio of 10 (speech
  followed by silence) the run succeeds and its only, and last, progress value is below
  100, whatever the rounding of the floats; in exact arithmetic, as for IEEE doubles, it
  is 50.
\<close>

theorem faster_whisper_final_progress:
  assumes "float_rounding rnd"
  shows "\<exists>v. transcribe rnd example_backends (example_transcriber True (Some example_model))
        example_path =
      (Inr [segment_of_raw \<lparr>raw_start = 0, raw_end = 5, raw_text = ascii '' Hello''\<rparr>],
       [v],
       [FasterWhisperLoad (Some example_model) Cpu (ascii ''float16''),
        FasterWhisperTranscribe example_path]) \<and>
    v < 100 \<and> \<not> progress_ok [v]"
proof -
  let ?v = "py_int (rnd (rnd (5 / 10) * 100))"
  have run: "transcribe rnd example_backends (example_transcriber True (Some example_model))
        example_path =
      (Inr [segment_of_raw \<lparr>raw_start = 0, raw_end = 5, raw_text = ascii '' Hello''\<rparr>],
       [?v],
       [FasterWhisperLoad (Some example_model) Cpu (ascii ''float16''),
        FasterWhisperTranscribe example_path])"
    using faster_selected
    by (simp add: transcribe_def transcribe_with_faster_whisper_def example_backends_def
        example_transcriber_def init_AudioTranscriber_def)
  have "\<bar>rnd (1 / 2) - 1 / 2\<bar> \<le> (1 / 2) / 2 ^ 53"
    by (rule float_rounding_error [OF assms]) simp_all
  from rel_error_bounds(1) [OF this] have "rnd (1 / 2) * 100 \<le> 51"
    by simp
  from float_rounding_mono [OF assms this] float_rounding_int [OF assms, of 51]
  have "rnd (rnd (1 / 2) * 100) \<le> 51"
    by simp
  then have "?v \<le> 51"
    by (simp add: py_int_def floor_le_iff ceiling_le_iff)
  then have "?v < 100 \<and> \<not> progress_ok [?v]"
    by (simp add: progress_ok_def)
  with run show ?thesis by blast
qed

theorem faster_whisper_final_progress_witness:
  "float_rounding no_rounding \<and>
   transcribe no_rounding example_backends (example_transcriber True (Some example_model))
     example_path =
   (Inr [segment_of_raw \<lparr>raw_start = 0, raw_end = 5, raw_text = ascii '' Hello''\<rparr>],
    [50],
    [FasterWhisperLoad (Some example_model) Cpu (ascii ''float16''),
     FasterWhisperTranscribe example_path]) \<and>
   (50 :: int) < 100 \<and> \<not> progress_ok [50]"
proof -
  from faster_whisper_final_progress [OF float_rounding_no_rounding]
  obtain v where
    "transcribe no_rounding example_backends (example_transcriber True (Some example_model))
        example_path =
      (Inr [segment_of_raw \<lparr>raw_start = 0, raw_end = 5, raw_text = ascii '' Hello''\<rparr>],
       [v],
       [FasterWhisperLoad (Some example_model) Cpu (ascii ''float16''),
        FasterWhisperTranscribe example_path])"
    and v: "v < 100" "\<not> progress_ok [v]"
    by blast
  moreover have "transcribe no_rounding example_backends
      (example_transcriber True (Some example_model)) example_path =
      transcribe_with_faster_whisper no_rounding example_backends
        (example_transcriber True (Some example_model)) example_path"
    using faster_selected by (simp add: transcribe_def)
  ultimately have "v = 50"
    using faster_example_run by simp
  with v faster_example_run faster_selected float_rounding_no_rounding show ?thesis
    by (simp add: transcribe_def)
qed

text \<open>
  Nor is a value clamped: a segment ending at 20 seconds of an audio of 10 is reported
  as 200.
\<close>

lemma faster_whisper_unclamped:
  "transcribe no_rounding late_backends (example_transcriber True (Some example_model))
     example_path =
   (Inr [segment_of_raw \<lparr>raw_start = 0, raw_end = 20, raw_text = ascii '' Hello''\<rparr>],
    [200],
    [FasterWhisperLoad (Some example_model) Cpu (ascii ''float16''),
     FasterWhisperTranscribe example_path]) \<and>
   \<not> progress_ok [200]"
  using faster_selected faster_late_run
  by (simp add: transcribe_def progress_ok_def)

subsection \<open>Translation: the store on the heap\<close>

text \<open>Appending to the list at \<open>l\<close> changes that object and no other.\<close>

lemma list_append_length: "length (list_append h l x) = length h"
  by (simp add: list_append_def)

lemma list_append_other: "x \<noteq> l \<Longrightarrow> list_append h l d ! x = h ! x"
  by (simp add: list_append_def)

lemma list_append_at: "l < length h \<Longrightarrow> list_at (list_append h l d) l = list_at h l @ [d]"
  by (simp add: list_append_def list_at_def)

lemma list_at_alloc: "l < length h \<Longrightarrow> list_at (h @ [ob]) l = list_at h l"
  by (simp add: list_at_def nth_append)

lemma dict_at_cong: "h' ! x = h ! x \<Longrightarrow> dict_at h' x = dict_at h x"
  by (simp add: dict_at_def)

lemma list_at_cong: "h' ! x = h ! x \<Longrightarrow> list_at h' x = list_at h x"
  by (simp add: list_at_def)

text \<open>
  The loop on the heap does what the loop on values does. It writes to the list at \<open>l\<close>
  and to new addresses only, and the list at \<open>l\<close> grows by the addresses of the new
  dicts, in order.
\<close>

lemma translate_loop_heap_sim:
  assumes "l < length h" and "\<forall>a \<in> set refs. a < length h \<and> a \<noteq> l"
    and "translate_loop_heap rnd self run ctx tot i l refs h ps calls = (r, h', ps', calls')"
  shows "length h \<le> length h' \<and> (\<forall>x < length h. x \<noteq> l \<longrightarrow> h' ! x = h ! x) \<and>
    (\<exists>st'. translate_loop rnd self run ctx tot i (map (dict_at h) refs)
         \<lparr>translated_segments = done, progress = ps, engine_calls = calls\<rparr> = (r, st') \<and>
       progress st' = ps' \<and> engine_calls st' = calls' \<and>
       (r = None \<longrightarrow>
          (\<exists>ds. list_at h' l = list_at h l @ ds \<and>
             (\<forall>d \<in> set ds. length h \<le> d \<and> d < length h' \<and> (\<exists>seg. h' ! d = DictObj seg)) \<and>
             translated_segments st' = done @ map (dict_at h') ds)))"
  using assms
proof (induction refs arbitrary: i h ps calls "done")
  case Nil
  then show ?case by simp
next
  case (Cons a rest)
  obtain res calls1 where
    step: "translate_segment self run ctx (dict_at h a) calls = (res, calls1)"
    by (cases "translate_segment self run ctx (dict_at h a) calls")
  show ?case
  proof (cases res)
    case (Inl e)
    with step Cons.prems(3) show ?thesis by auto
  next
    case (Inr new)
    let ?d = "length h"
    let ?h2 = "list_append (h @ [DictObj new]) l ?d"
    let ?ps = "ps @ [progress_percent rnd (i + 1) tot]"
    from Cons.prems(1) have l: "l < length h" .
    have len2: "length ?h2 = Suc (length h)" by (simp add: list_append_length)
    have keep2: "?h2 ! x = h ! x" if "x < length h" "x \<noteq> l" for x
      using that by (simp add: list_append_other nth_append)
    have new2: "?h2 ! ?d = DictObj new"
      using l by (simp add: list_append_other)
    have list2: "list_at ?h2 l = list_at h l @ [?d]"
      using l by (simp add: list_append_at list_at_alloc)
    from step Inr Cons.prems(3)
    have rec: "translate_loop_heap rnd self run ctx tot (i + 1) l rest ?h2 ?ps calls1 =
        (r, h', ps', calls')"
      by (simp add: alloc_def)
    have l2: "l < length ?h2" using l len2 by simp
    have refs2: "\<forall>a \<in> set rest. a < length ?h2 \<and> a \<noteq> l"
      using Cons.prems(2) len2 by auto
    from Cons.IH [OF l2 refs2 rec, of "done @ [new]"]
    obtain st' where
      grow: "length ?h2 \<le> length h'"
      and keep: "\<forall>x < length ?h2. x \<noteq> l \<longrightarrow> h' ! x = ?h2 ! x"
      and loop: "translate_loop rnd self run ctx tot (i + 1) (map (dict_at ?h2) rest)
          \<lparr>translated_segments = done @ [new], progress = ?ps, engine_calls = calls1\<rparr> =
          (r, st')"
      and out: "progress st' = ps'" "engine_calls st' = calls'"
      and succ: "r = None \<longrightarrow>
          (\<exists>ds. list_at h' l = list_at ?h2 l @ ds \<and>
             (\<forall>d \<in> set ds. length ?h2 \<le> d \<and> d < length h' \<and> (\<exists>seg. h' ! d = DictObj seg)) \<and>
             translated_segments st' = (done @ [new]) @ map (dict_at h') ds)"
      by blast
    have same: "map (dict_at ?h2) rest = map (dict_at h) rest"
      using Cons.prems(2) by (auto intro!: dict_at_cong keep2)
    have c1: "length h \<le> length h'" using grow len2 by simp
    have c2: "\<forall>x < length h. x \<noteq> l \<longrightarrow> h' ! x = h ! x"
      using keep keep2 len2 by auto
    have c3: "translate_loop rnd self run ctx tot i (map (dict_at h) (a # rest))
         \<lparr>translated_segments = done, progress = ps, engine_calls = calls\<rparr> = (r, st')"
      using step Inr loop same by simp
    have c4: "r = None \<longrightarrow>
          (\<exists>ds. list_at h' l = list_at h l @ ds \<and>
             (\<forall>d \<in> set ds. length h \<le> d \<and> d < length h' \<and> (\<exists>seg. h' ! d = DictObj seg)) \<and>
             translated_segments st' = done @ map (dict_at h') ds)"
    proof
      assume "r = None"
      with succ obtain ds where
        ds: "list_at h' l = list_at ?h2 l @ ds"
          "\<forall>d \<in> set ds. length ?h2 \<le> d \<and> d < length h' \<and> (\<exists>seg. h' ! d = DictObj seg)"
          "translated_segments st' = (done @ [new]) @ map (dict_at h') ds"
        by blast
      have "?d < length ?h2" "?d \<noteq> l" using l len2 by simp_all
      with keep have hd: "h' ! ?d = DictObj new" using new2 by simp
      then have dd: "dict_at h' ?d = new" by (simp add: dict_at_def)
      have "?d < length h'" using grow len2 by simp
      with ds hd dd list2 len2
      have "list_at h' l = list_at h l @ (?d # ds) \<and>
          (\<forall>d \<in> set (?d # ds). length h \<le> d \<and> d < length h' \<and> (\<exists>seg. h' ! d = DictObj seg)) \<and>
          translated_segments st' = done @ map (dict_at h') (?d # ds)"
        by auto
      then show "\<exists>ds. list_at h' l = list_at h l @ ds \<and>
          (\<forall>d \<in> set ds. length h \<le> d \<and> d < length h' \<and> (\<exists>seg. h' ! d = DictObj seg)) \<and>
          translated_segments st' = done @ map (dict_at h') ds"
        by blast
    qed
    from c1 c2 c3 out c4 show ?thesis by blast
  qed
qed

lemma store_ref_refs:
  assumes "store_ref h a"
  shows "a < length h" and "\<forall>x \<in> set (list_at h a). x < length h \<and> (\<exists>seg. h ! x = DictObj seg)"
    and "h ! a = ListObj (list_at h a)"
  using assms by (auto simp: store_ref_def list_at_def)

text \<open>
  So \<open>translate_segments\<close> on the heap computes what \<open>translate_segments\<close> on values
  computes from the segments the reference leads to; no object of the heap it was given
  is changed, and a returned reference is a new list object of new dict objects.
\<close>

lemma translate_segments_heap_sim:
  assumes "store_ref h a"
    and "translate_segments_heap rnd self run h a = (res, h', ps, calls)"
  shows "length h \<le> length h' \<and> (\<forall>x < length h. h' ! x = h ! x) \<and>
    translate_segments rnd self run (read_store h a) =
      (case res of Inl e \<Rightarrow> Inl e | Inr l \<Rightarrow> Inr (read_store h' l), ps, calls) \<and>
    (\<forall>l. res = Inr l \<longrightarrow>
       l = length h \<and> l < length h' \<and> h' ! l = ListObj (list_at h' l) \<and>
       (\<forall>d \<in> set (list_at h' l). length h < d \<and> d < length h' \<and> (\<exists>seg. h' ! d = DictObj seg)))"
proof (cases "list_at h a = []")
  case True
  with assms(2) show ?thesis
    by (auto simp: translate_segments_heap_def translate_segments_def read_store_def)
next
  case ne: False
  let ?refs = "list_at h a"
  let ?h0 = "h @ [ListObj []]"
  let ?l = "length h"
  let ?segs = "read_store h a"
  note refs = store_ref_refs(2) [OF assms(1)]
  have segs_ne: "?segs \<noteq> []" using ne by (simp add: read_store_def)
  have same: "dict_at ?h0 x = dict_at h x" if "x \<in> set ?refs" for x
    using refs that by (auto simp: dict_at_def nth_append)
  have key: "list_ex (\<lambda>x. seg_text (dict_at ?h0 x) = None) ?refs \<longleftrightarrow>
      list_ex (\<lambda>seg. seg_text seg = None) ?segs"
    using same by (auto simp: list_ex_iff read_store_def)
  have texts: "map (\<lambda>x. the (seg_text (dict_at ?h0 x))) ?refs =
      map (\<lambda>seg. the (seg_text seg)) ?segs"
    using same by (simp add: read_store_def)
  have segs0: "map (dict_at ?h0) ?refs = ?segs"
    using same by (simp add: read_store_def)
  show ?thesis
  proof (cases "use_local_model self \<and> truthy (model_name self) \<and>
      list_ex (\<lambda>seg. seg_text seg = None) ?segs")
    case True
    with ne segs_ne key assms(2) show ?thesis
      by (auto simp: translate_segments_heap_def translate_segments_def alloc_def nth_append)
  next
    case False
    let ?ctx = "context_prefix @ join (ascii ''\<newline>---\<newline>'') (map (\<lambda>seg. the (seg_text seg)) ?segs)"
    obtain r hh pp cc where
      loop: "translate_loop_heap rnd self run ?ctx (length ?refs) 0 ?l ?refs ?h0 [] [] =
        (r, hh, pp, cc)"
      by (cases "translate_loop_heap rnd self run ?ctx (length ?refs) 0 ?l ?refs ?h0 [] []")
    from False key have nokey: "\<not> (use_local_model self \<and> truthy (model_name self) \<and>
        list_ex (\<lambda>x. seg_text (dict_at ?h0 x) = None) ?refs)"
      by simp
    have heap_run: "translate_segments_heap rnd self run h a =
        (case r of Some e \<Rightarrow> Inl (RuntimeError (Some e)) | None \<Rightarrow> Inr ?l, hh, pp, cc)"
      using ne nokey loop texts
      by (auto simp: translate_segments_heap_def alloc_def Let_def split: option.splits)
    with assms(2) have res: "res = (case r of Some e \<Rightarrow> Inl (RuntimeError (Some e)) | None \<Rightarrow> Inr ?l)"
      and eqs: "h' = hh" "ps = pp" "calls = cc"
      by simp_all
    have l0: "?l < length ?h0" by simp
    have refs0: "\<forall>x \<in> set ?refs. x < length ?h0 \<and> x \<noteq> ?l"
      using refs by auto
    from translate_loop_heap_sim [OF l0 refs0 loop, of "[]"]
    obtain st' where
      grow: "length ?h0 \<le> length hh"
      and keep: "\<forall>x < length ?h0. x \<noteq> ?l \<longrightarrow> hh ! x = ?h0 ! x"
      and vloop: "translate_loop rnd self run ?ctx (length ?refs) 0 (map (dict_at ?h0) ?refs)
          \<lparr>translated_segments = [], progress = [], engine_calls = []\<rparr> = (r, st')"
      and out: "progress st' = pp" "engine_calls st' = cc"
      and succ: "r = None \<longrightarrow>
          (\<exists>ds. list_at hh ?l = list_at ?h0 ?l @ ds \<and>
             (\<forall>d \<in> set ds. length ?h0 \<le> d \<and> d < length hh \<and> (\<exists>seg. hh ! d = DictObj seg)) \<and>
             translated_segments st' = [] @ map (dict_at hh) ds)"
      by blast
    have len: "length ?segs = length ?refs" by (simp add: read_store_def)
    have c1: "length h \<le> length h'" using grow eqs by simp
    have c2: "\<forall>x < length h. h' ! x = h ! x"
      using keep eqs by (auto simp: nth_append)
    have vrun: "translate_segments rnd self run ?segs =
        (case r of Some e \<Rightarrow> Inl (RuntimeError (Some e)) | None \<Rightarrow> Inr (translated_segments st'),
         pp, cc)"
      using segs_ne False vloop out len
      by (auto simp: translate_segments_def segs0 Let_def split: option.splits)
    show ?thesis
    proof (cases r)
      case (Some e)
      with res vrun eqs c1 c2 show ?thesis by simp
    next
      case None
      with succ obtain ds where
        ds: "list_at hh ?l = list_at ?h0 ?l @ ds"
          "\<forall>d \<in> set ds. length ?h0 \<le> d \<and> d < length hh \<and> (\<exists>seg. hh ! d = DictObj seg)"
          "translated_segments st' = map (dict_at hh) ds"
        by auto
      have l00: "list_at ?h0 ?l = []" by (simp add: list_at_def)
      with ds have lds: "list_at hh ?l = ds" by simp
      then have rd: "read_store hh ?l = translated_segments st'"
        using ds(3) by (simp add: read_store_def)
      have islist: "\<exists>xs. hh ! ?l = ListObj xs"
      proof (cases "ds = []")
        case True
        with ds(3) have "translated_segments st' = []" by simp
        moreover from vrun None segs_ne
        have "translate_segments rnd self run ?segs = (Inr (translated_segments st'), pp, cc)"
          by simp
        from translate_segments_list_result [OF this] have "translated_segments st' \<noteq> []"
          by auto
        ultimately show ?thesis by simp
      next
        case False
        with lds have "list_at hh ?l \<noteq> []" by simp
        then show ?thesis by (cases "hh ! ?l") (simp_all add: list_at_def)
      qed
      then have obj: "hh ! ?l = ListObj (list_at hh ?l)"
        by (auto simp: list_at_def)
      from None res have r1: "res = Inr ?l" by simp
      have "?l < length hh" using grow by simp
      with r1 vrun None rd eqs c1 c2 obj lds ds(2) show ?thesis by auto
    qed
  qed
qed

text \<open>
  Whether the run succeeds or fails, every object that existed before the call is as it
  was, the store among them.
\<close>

lemma translate_segments_heap_frame:
  assumes "store_ref h a"
    and "translate_segments_heap rnd self run h a = (res, h', ps, calls)"
  shows "take (length h) h' = h \<and> read_store h' a = read_store h a"
proof -
  from translate_segments_heap_sim [OF assms]
  have grow: "length h \<le> length h'" and keep: "\<forall>x < length h. h' ! x = h ! x"
    by simp_all
  from grow keep have old: "take (length h) h' = h"
    by (simp add: list_eq_iff_nth_eq)
  from store_ref_refs(1) [OF assms(1)] keep have "h' ! a = h ! a"
    by simp
  then have la: "list_at h' a = list_at h a"
    by (rule list_at_cong)
  have "dict_at h' x = dict_at h x" if "x \<in> set (list_at h a)" for x
  proof (rule dict_at_cong)
    from store_ref_refs(2) [OF assms(1)] that have "x < length h" by simp
    with keep show "h' ! x = h ! x" by simp
  qed
  with la have "read_store h' a = read_store h a"
    by (simp add: read_store_def)
  with old show ?thesis by simp
qed

text \<open>
  C1, as amended. A successful \<open>translate_segments\<close> leaves every object that existed
  before the call as it was, so the input list and its dicts are not mutated. The list it
  returns is a new object, not the input list, and its elements are new dicts, as many as
  the non-empty input has segments and in the same order; each new dict has the \<open>start\<close>
  and \<open>end\<close> of the segment at its index, \<open>original\<close> equal to that segment's text, a
  \<open>translated\<close> field and no \<open>text\<close> field.
\<close>

theorem translate_segments_rebuilds_store:
  assumes "store_ref h a"
    and "translate_segments_heap rnd self run h a = (Inr l, h', ps, calls)"
  shows "take (length h) h' = h \<and> read_store h' a = read_store h a \<and>
    length h \<le> l \<and> l \<noteq> a \<and> store_ref h' l \<and>
    (\<forall>d \<in> set (list_at h' l). length h \<le> d) \<and>
    read_store h a \<noteq> [] \<and> length (read_store h' l) = length (read_store h a) \<and>
    (\<forall>i < length (read_store h a). translated_from (read_store h a ! i) (read_store h' l ! i))"
proof -
  note sim = translate_segments_heap_sim [OF assms]
  from sim
  have vrun: "translate_segments rnd self run (read_store h a) = (Inr (read_store h' l), ps, calls)"
    by simp
  from sim
  have l: "l = length h" "l < length h'" "h' ! l = ListObj (list_at h' l)"
    and ds: "\<forall>d \<in> set (list_at h' l). length h < d \<and> d < length h' \<and> (\<exists>seg. h' ! d = DictObj seg)"
    by blast+
  from l ds have ref: "store_ref h' l"
    unfolding store_ref_def by blast
  from store_ref_refs(1) [OF assms(1)] l have fresh: "length h \<le> l" "l \<noteq> a"
    by simp_all
  from ds have new: "\<forall>d \<in> set (list_at h' l). length h \<le> d"
    by auto
  from translate_segments_heap_frame [OF assms] translate_segments_list_result [OF vrun]
    ref fresh new
  show ?thesis by simp
qed

lemma ascii_World: "ascii ''World'' = [87, 111, 114, 108, 100]"
  by (simp add: ascii_def)

lemma translate_world:
  "translate_segment example_translator example_engine ctx world_segment calls =
    (Inr \<lparr>seg_start = Some (5 / 2), seg_end = Some 4, seg_text = None,
          seg_original = Some (ascii ''World''), seg_translated = Some [20320, 22909]\<rparr>,
     calls @ [[ascii ''ollama'', ascii ''run'', ascii ''gemma'',
               prompt_head @ ctx @ prompt_middle @ ascii ''World'']])"
proof -
  have s: "sanitize [20320, 22909] = [20320, 22909]"
    by (simp add: sanitize_def strip_def is_space_def allowed_char_def allowed_punct_def)
  have t: "strip [87, 111, 114, 108, 100] = [87, 111, 114, 108, 100]"
    by (simp add: strip_def is_space_def)
  have u: "strip [20320, 22909] = [20320, 22909]"
    by (simp add: strip_def is_space_def)
  have "truthy (model_name example_translator)"
    using example_enabled by (simp add: engine_enabled_def)
  then show ?thesis
    by (simp add: translate_segment_def translate_with_ollama_def world_segment_def
        example_engine_def example_translator_def s t u ascii_World)
qed

lemma two_segment_heap_ref: "store_ref two_segment_heap 2"
  by (simp add: store_ref_def two_segment_heap_def)

lemma two_segment_heap_run:
  "fst (translate_segments_heap no_rounding example_translator example_engine
          two_segment_heap 2) = Inr 3 \<and>
   fst (snd (translate_segments_heap no_rounding example_translator example_engine
          two_segment_heap 2)) =
     [DictObj hello_segment, DictObj world_segment, ListObj [0, 1], ListObj [4, 5],
      DictObj translated_hello_segment, DictObj translated_world_segment] \<and>
   fst (snd (snd (translate_segments_heap no_rounding example_translator example_engine
          two_segment_heap 2))) = [50, 100]"
proof -
  have t: "seg_text hello_segment \<noteq> None" "seg_text world_segment \<noteq> None"
    by (simp_all add: hello_segment_def world_segment_def)
  show ?thesis
    by (simp add: translate_segments_heap_def two_segment_heap_def alloc_def list_at_def
        dict_at_def list_append_def translate_hello translate_world t
        translated_hello_segment_def translated_world_segment_def Let_def
        progress_percent_half progress_percent_two)
qed

theorem translate_segments_rebuilds_store_witness:
  "store_ref two_segment_heap 2 \<and>
   fst (translate_segments_heap no_rounding example_translator example_engine
          two_segment_heap 2) = Inr 3 \<and>
   fst (snd (translate_segments_heap no_rounding example_translator example_engine
          two_segment_heap 2)) =
     [DictObj hello_segment, DictObj world_segment, ListObj [0, 1], ListObj [4, 5],
      DictObj translated_hello_segment, DictObj translated_world_segment] \<and>
   take (length two_segment_heap)
     [DictObj hello_segment, DictObj world_segment, ListObj [0, 1], ListObj [4, 5],
      DictObj translated_hello_segment, DictObj translated_world_segment] = two_segment_heap \<and>
   read_store two_segment_heap 2 = [hello_segment, world_segment] \<and>
   read_store
     [DictObj hello_segment, DictObj world_segment, ListObj [0, 1], ListObj [4, 5],
      DictObj translated_hello_segment, DictObj translated_world_segment] 2 =
     [hello_segment, world_segment] \<and>
   read_store
     [DictObj hello_segment, DictObj world_segment, ListObj [0, 1], ListObj [4, 5],
      DictObj translated_hello_segment, DictObj translated_world_segment] 3 =
     [translated_hello_segment, translated_world_segment] \<and>
   translated_from hello_segment translated_hello_segment \<and>
   translated_from world_segment translated_world_segment"
proof -
  let ?R = "translate_segments_heap no_rounding example_translator example_engine
      two_segment_heap 2"
  let ?h' = "[DictObj hello_segment, DictObj world_segment, ListObj [0, 1], ListObj [4, 5],
      DictObj translated_hello_segment, DictObj translated_world_segment]"
  have "?R = (fst ?R, fst (snd ?R), fst (snd (snd ?R)), snd (snd (snd ?R)))" by simp
  then have run: "?R = (Inr 3, ?h', fst (snd (snd ?R)), snd (snd (snd ?R)))"
    using two_segment_heap_run by simp
  note res = translate_segments_rebuilds_store [OF two_segment_heap_ref run]
  have old: "read_store two_segment_heap 2 = [hello_segment, world_segment]"
    by (simp add: read_store_def list_at_def dict_at_def two_segment_heap_def)
  have new: "read_store ?h' 3 = [translated_hello_segment, translated_world_segment]"
    by (simp add: read_store_def list_at_def dict_at_def)
  from res old have same: "read_store ?h' 2 = [hello_segment, world_segment]"
    by simp
  from res have kept: "take (length two_segment_heap) ?h' = two_segment_heap"
    by blast
  from res have "\<forall>i < length (read_store two_segment_heap 2).
      translated_from (read_store two_segment_heap 2 ! i) (read_store ?h' 3 ! i)"
    by blast
  then have all: "\<forall>i < 2. translated_from ([hello_segment, world_segment] ! i)
      ([translated_hello_segment, translated_world_segment] ! i)"
    unfolding old new by simp
  from all have a: "translated_from hello_segment translated_hello_segment"
    by (auto dest: spec [of _ 0])
  from all have b: "translated_from world_segment translated_world_segment"
    by (auto dest: spec [of _ 1])
  from two_segment_heap_ref two_segment_heap_run kept old same new a b
  show ?thesis by blast
qed

lemma hello_heap_run:
  "fst (translate_segments_heap no_rounding example_translator example_engine hello_heap 1) =
     Inr 2 \<and>
   fst (snd (translate_segments_heap no_rounding example_translator example_engine
          hello_heap 1)) =
     [DictObj hello_segment, ListObj [0], ListObj [3], DictObj translated_hello_segment]"
proof -
  have t: "seg_text hello_segment \<noteq> None" by (simp add: hello_segment_def)
  show ?thesis
    by (simp add: translate_segments_heap_def hello_heap_def alloc_def list_at_def dict_at_def
        list_append_def translate_hello t translated_hello_segment_def Let_def)
qed

text \<open>
  C1 as stated fails. After the translation of the store at address 1, whose one segment
  is \<^verbatim>\<open>{"start": 0.0, "end": 2.5, "text": "Hello"}\<close>, that list and its dict are what they
  were: the dict has its \<open>text\<close> and has neither \<open>original\<close> nor \<open>translated\<close>. The call
  returns another list, at address 2, whose dict has no \<open>text\<close>.
\<close>

theorem translated_store_is_a_new_list:
  "hello_heap = [DictObj hello_segment, ListObj [0]] \<and>
   fst (translate_segments_heap no_rounding example_translator example_engine hello_heap 1) =
     Inr 2 \<and>
   fst (snd (translate_segments_heap no_rounding example_translator example_engine
          hello_heap 1)) =
     [DictObj hello_segment, ListObj [0], ListObj [3], DictObj translated_hello_segment] \<and>
   seg_text hello_segment = Some (ascii ''Hello'') \<and>
   seg_original hello_segment = None \<and> seg_translated hello_segment = None \<and>
   seg_text translated_hello_segment = None"
  using hello_heap_run
  by (simp add: hello_heap_def hello_segment_def translated_hello_segment_def)

end
